theory Spec2Isabelle
  imports Main "HOL-Library.Word" "HOL-Library.Char_ord" "HOL-Library.List_Lexorder"
begin

section \<open>Values, errors and results shared by the loaders\<close>

text \<open>
  A Go call of this package ends in one of three ways: it panics, it returns a non-nil
  error (and a nil table), or it returns its value with a nil error.
\<close>

datatype target = ToFloat64 | ToInt | ToBool | ToTime string | ToGeneric

datatype error =
    InvalidDatabase \<comment> \<open>\<^verbatim>\<open>errors.New("invalid database")\<close>\<close>
  | NoSeriesFound \<comment> \<open>\<^verbatim>\<open>errors.New("no series found")\<close>\<close>
  | QueryErr string \<comment> \<open>the error of \<^verbatim>\<open>QueryContext\<close>\<close>
  | ScanErr string \<comment> \<open>the error of \<^verbatim>\<open>rows.Scan\<close>\<close>
  | RowsErr string \<comment> \<open>the error of \<^verbatim>\<open>rows.Err\<close>\<close>
  | CantForce string target nat string
      \<comment> \<open>\<^verbatim>\<open>"can't force string: %s to <target>. row: %d field: %s"\<close>\<close>
  | ErrNoRows \<comment> \<open>\<^verbatim>\<open>dataframe.ErrNoRows\<close>\<close>
  | CtxErr string \<comment> \<open>the non-nil value of \<^verbatim>\<open>ctx.Err()\<close>\<close>
  | TokenErr string \<comment> \<open>the error of \<^verbatim>\<open>dec.Token\<close>, other than io.EOF\<close>
  | DecodeErr string \<comment> \<open>the error of \<^verbatim>\<open>dec.Decode\<close>, other than io.EOF\<close>
  | UnknownField nat string
      \<comment> \<open>\<^verbatim>\<open>"unknown field encountered. row: %d field: %s"\<close>\<close>
  | RangeErr string \<comment> \<open>the error of \<^verbatim>\<open>Range.Limits\<close>\<close>

datatype 'a result = Panic string | Err error | Ok 'a

text \<open>
  The context: \<open>ctx t\<close> is what the \<open>t\<close>-th call of \<^verbatim>\<open>ctx.Err()\<close> made by the running
  function returns (counted from 0); \<open>None\<close> is nil.
\<close>

type_synonym ctx = "nat \<Rightarrow> string option"

type_synonym float64 = "64 word" \<comment> \<open>the IEEE-754 bits\<close>
type_synonym int64 = "64 word" \<comment> \<open>two's complement, read by \<open>sint\<close>\<close>

datatype gotime = GoTime int int \<comment> \<open>seconds and nanoseconds since the Unix epoch\<close>

text \<open>The values a loader hands to the table (Go's \<^verbatim>\<open>interface{}\<close>); \<open>VNil\<close> is nil.\<close>

datatype val = VNil | VString string | VInt64 int64 | VFloat64 float64 | VTime gotime
  | VOther string

text \<open>The dynamic type of a converter's \<^verbatim>\<open>ConcreteType\<close>: \<^verbatim>\<open>time.Time\<close> or any other type.\<close>

datatype gotype = TTime | TNamed string

text \<open>
  An entry of \<^verbatim>\<open>DictateDataType\<close>, by the dynamic type the loaders' type switches look at
  (the value itself is not read). \<^verbatim>\<open>Converter\<close> is a struct of the fields
  \<^verbatim>\<open>ConcreteType\<close> and \<^verbatim>\<open>ConverterFunc\<close>, the latter returning a value or an error.
\<close>

datatype dictated =
    DFloat64 | DInt64 | DBool | DString | DTime
  | DNewSerieser string
  | DConverter gotype "string \<Rightarrow> string + val"
  | DOtherType string

subsection \<open>The Go standard library\<close>

text \<open>
  \<^verbatim>\<open>strconv.ParseInt(s, 10, 64)\<close>: an optional sign, then one or more decimal digits; the
  value must fit 64 signed bits. \<open>None\<close> is a non-nil error.
\<close>

definition isDigit :: "char \<Rightarrow> bool" where
  "isDigit c = (c \<in> set ''0123456789'')"

fun digitsVal :: "int \<Rightarrow> string \<Rightarrow> int" where
  "digitsVal acc [] = acc"
| "digitsVal acc (c # cs) = digitsVal (acc * 10 + (int (of_char c) - 48)) cs"

definition ParseInt :: "string \<Rightarrow> int64 option" where
  "ParseInt s =
     (let neg = (case s of [] \<Rightarrow> False | c # cs \<Rightarrow> c = CHR ''-'');
          ds = (case s of [] \<Rightarrow> [] | c # cs \<Rightarrow> if c = CHR ''+'' \<or> c = CHR ''-'' then cs else s)
      in if ds = [] then None
         else if list_all isDigit ds then
           (let v = (if neg then - digitsVal 0 ds else digitsVal 0 ds)
            in if - (2 ^ 63) \<le> v \<and> v \<le> 2 ^ 63 - 1 then Some (word_of_int v) else None)
         else None)"

text \<open>
  \<^verbatim>\<open>strconv.ParseFloat(s, 64)\<close> and \<^verbatim>\<open>time.Parse(layout, s)\<close> are parameters of the model.
\<close>

record stdlib =
  ParseFloat :: "string \<Rightarrow> float64 option"
  TimeParse :: "string \<Rightarrow> string \<Rightarrow> gotime option"

definition RFC3339 :: string where
  "RFC3339 = ''2006-01-02T15:04:05Z07:00''"

subsection \<open>The destination table\<close>

text \<open>
  The table of package dataframe is not among the sources: its types and operations are
  modelled from the spec, which has it as "an ordered set of named columns, each holding a
  homogeneously-typed sequence of values with explicit null support", with "locking, row
  append, indexed row update, indexed row removal, and column reordering". Locking is
  left out: every call here is made with \<^verbatim>\<open>DontLock\<close> or on a table no one else holds.
\<close>

datatype kind = KString | KFloat64 | KInt64 | KTime | KGeneric gotype | KCustom string

record Series =
  Name :: string
  Kind :: kind
  Values :: "val list"

record SeriesInit =
  Size :: int

record DataFrame =
  Series :: "Series list"
  n :: nat

text \<open>
  Modelled from the spec: the series constructors \<^verbatim>\<open>NewSeriesString\<close>, \<^verbatim>\<open>NewSeriesFloat64\<close>,
  \<^verbatim>\<open>NewSeriesInt64\<close>, \<^verbatim>\<open>NewSeriesTime\<close>, \<^verbatim>\<open>NewSeriesGeneric\<close> and a custom \<^verbatim>\<open>NewSeries\<close>, as
  one function of the kind. With no \<^verbatim>\<open>SeriesInit\<close> the series is empty; with one it holds
  \<^verbatim>\<open>Size\<close> nil rows (the preallocated rows, which the loaders update in place by index). A
  negative size panics, as Go's \<^verbatim>\<open>make\<close> does.
\<close>

definition NewSeries :: "kind \<Rightarrow> string \<Rightarrow> SeriesInit option \<Rightarrow> Series result" where
  "NewSeries k name init =
     (case init of
        None \<Rightarrow> Ok \<lparr>Name = name, Kind = k, Values = []\<rparr>
      | Some i \<Rightarrow>
          if Size i < 0 then Panic ''makeslice: len out of range''
          else Ok \<lparr>Name = name, Kind = k, Values = replicate (nat (Size i)) VNil\<rparr>)"

text \<open>Modelled from the spec: \<^verbatim>\<open>df.Names\<close>, the names of the columns in their order.\<close>

definition Names :: "DataFrame \<Rightarrow> string list" where
  "Names df = map Name (Series df)"

text \<open>
  Modelled from the spec: \<^verbatim>\<open>NewDataFrame\<close>, the table of the given series. It is never nil.
  Column names are unique within a table and all columns have the same number of rows;
  series that break either rule panic.
\<close>

definition NewDataFrame :: "Series list \<Rightarrow> DataFrame result" where
  "NewDataFrame se =
     (let count = (case se of [] \<Rightarrow> 0 | s # ss \<Rightarrow> length (Values s))
      in if list_all (\<lambda>s. length (Values s) = count) se then
           if distinct (map Name se) then Ok \<lparr>Series = se, n = count\<rparr>
           else Panic ''names of series must be unique''
         else Panic ''different number of rows in series'')"

text \<open>Modelled from the spec: \<^verbatim>\<open>df.NRows\<close>, the number of rows of the table.\<close>

definition NRows :: "DataFrame \<Rightarrow> nat" where
  "NRows df = n df"

text \<open>Modelled from the spec: \<^verbatim>\<open>df.Append\<close> of one nil per series, which adds a row of nils.\<close>

definition Append :: "DataFrame \<Rightarrow> DataFrame" where
  "Append df =
     \<lparr>Series = map (\<lambda>s. s\<lparr>Values := Values s @ [VNil]\<rparr>) (Series df), n = Suc (n df)\<rparr>"

text \<open>
  Modelled from the spec: \<^verbatim>\<open>df.UpdateRow\<close> with a map from column names to values, which
  sets the cells of row \<open>r\<close> in the named columns. \<open>None\<close> is the panic for a row that the
  table does not have.
\<close>

definition UpdateRow :: "nat \<Rightarrow> (string \<rightharpoonup> val) \<Rightarrow> DataFrame \<Rightarrow> DataFrame option" where
  "UpdateRow r vals df =
     (if r < NRows df then
        Some (df\<lparr>Series := map (\<lambda>s. case vals (Name s) of
                                       None \<Rightarrow> s
                                     | Some v \<Rightarrow> s\<lparr>Values := (Values s)[r := v]\<rparr>) (Series df)\<rparr>)
      else None)"

text \<open>
  Modelled from the spec: \<^verbatim>\<open>df.Remove\<close>, which takes row \<open>r\<close> out of every column. \<open>None\<close> is
  the panic for a row that the table does not have.
\<close>

definition Remove :: "int \<Rightarrow> DataFrame \<Rightarrow> DataFrame option" where
  "Remove r df =
     (if 0 \<le> r \<and> r < int (NRows df) then
        Some \<lparr>Series = map (\<lambda>s. s\<lparr>Values := take (nat r) (Values s) @ drop (Suc (nat r)) (Values s)\<rparr>)
                          (Series df),
              n = n df - 1\<rparr>
      else None)"

text \<open>
  Modelled from the spec: \<^verbatim>\<open>df.ReorderColumns\<close>, which puts the columns in the order of the
  given names (the loader drops what it returns).
\<close>

definition ReorderColumns :: "string list \<Rightarrow> DataFrame \<Rightarrow> DataFrame" where
  "ReorderColumns newOrder df =
     df\<lparr>Series := List.map_filter (\<lambda>name. find (\<lambda>s. Name s = name) (Series df)) newOrder\<rparr>"

text \<open>The cell of column \<open>name\<close> at row \<open>r\<close>, when there is one.\<close>

definition cell :: "DataFrame \<Rightarrow> string \<Rightarrow> nat \<Rightarrow> val option" where
  "cell df name r =
     (case find (\<lambda>s. Name s = name) (Series df) of
        None \<Rightarrow> None
      | Some s \<Rightarrow> if r < length (Values s) then Some (Values s ! r) else None)"

section \<open>The query path: LoadFromSQL\<close>

definition PostgreSQL :: int where
  "PostgreSQL = 0"

definition MySQL :: int where
  "MySQL = 1"

text \<open>
  The \<^verbatim>\<open>rows\<close> interface as the loader reads it: the column types (an error of
  \<^verbatim>\<open>ColumnTypes\<close> is dropped by the loader and leaves no columns), then one entry for every
  \<^verbatim>\<open>Next\<close> that returns true, holding what \<^verbatim>\<open>Scan\<close> does (an error, or one byte slice
  per column, \<open>None\<close> for a nil slice), then \<^verbatim>\<open>Err\<close>.
\<close>

record ColumnType =
  CTName :: string
  DatabaseTypeName :: string

record rows =
  ColumnTypes :: "ColumnType list"
  Scans :: "(string + string option list) list"
  RowsError :: "string option"

text \<open>
  The statement, by the one interface of the type switch it satisfies; each holds its
  \<^verbatim>\<open>QueryContext\<close>, which is given the context. \<open>NotAStmt T\<close> is a value of a type \<open>T\<close>
  that satisfies none.
\<close>

datatype stmt =
    QueryContexter1 "ctx \<Rightarrow> val list \<Rightarrow> string + rows"
  | QueryContexter2 "ctx \<Rightarrow> val list \<Rightarrow> string + rows"
  | QueryContexter3 "ctx \<Rightarrow> string \<Rightarrow> val list \<Rightarrow> string + rows"
  | QueryContexter4 "ctx \<Rightarrow> string \<Rightarrow> val list \<Rightarrow> string + rows"
  | NotAStmt string

record SQLLoadOptions =
  KnownRowCount :: "int option"
  DictateDataType :: "(string \<times> dictated) list"
  Database :: int
  Query :: string

text \<open>The series the loader makes for a column: lines 148 to 199.\<close>

definition typeNameKind :: "string \<Rightarrow> kind" where
  "typeNameKind typ =
     (if typ \<in> set [''VARCHAR'', ''TEXT'', ''NVARCHAR'', ''MEDIUMTEXT'', ''LONGTEXT''] then KString
      else if typ \<in> set [''FLOAT'', ''FLOAT4'', ''FLOAT8'', ''DOUBLE'', ''DECIMAL'', ''NUMERIC'']
        then KFloat64
      else if typ \<in> set [''BOOL'', ''INT'', ''TINYINT'', ''INT2'', ''INT4'', ''INT8'', ''MEDIUMINT'',
                          ''SMALLINT'', ''BIGINT'']
        then KInt64
      else if typ \<in> set [''DATETIME'', ''TIMESTAMP'', ''TIMESTAMPTZ''] then KTime
      else KString)"

definition dictatedKindSQL :: "dictated \<Rightarrow> kind" where
  "dictatedKindSQL dtyp =
     (case dtyp of
        DFloat64 \<Rightarrow> KFloat64
      | DInt64 \<Rightarrow> KInt64
      | DBool \<Rightarrow> KInt64
      | DString \<Rightarrow> KString
      | DTime \<Rightarrow> KTime
      | DNewSerieser T \<Rightarrow> KCustom T
      | DConverter concreteType converterFunc \<Rightarrow>
          (case concreteType of TTime \<Rightarrow> KTime | TNamed T \<Rightarrow> KGeneric concreteType)
      | DOtherType T \<Rightarrow> KGeneric (TNamed ''string''))"

text \<open>
  The lookup \<^verbatim>\<open>options != nil && len(options.DictateDataType) > 0\<close> followed by
  \<^verbatim>\<open>dtyp, exists := options.DictateDataType[name]\<close>, at lines 153 and 232; \<open>None\<close> when
  the field has no entry.
\<close>

definition dictatedSQL :: "SQLLoadOptions option \<Rightarrow> string \<Rightarrow> dictated option" where
  "dictatedSQL options name =
     (case options of
        None \<Rightarrow> None
      | Some opt \<Rightarrow>
          if 0 < length (DictateDataType opt) then map_of (DictateDataType opt) name else None)"

definition columnKind :: "SQLLoadOptions option \<Rightarrow> ColumnType \<Rightarrow> kind" where
  "columnKind options ct =
     (case dictatedSQL options (CTName ct) of
        Some dtyp \<Rightarrow> dictatedKindSQL dtyp
      | None \<Rightarrow> typeNameKind (DatabaseTypeName ct))"

fun newSeriess :: "SQLLoadOptions option \<Rightarrow> SeriesInit option \<Rightarrow> ColumnType list \<Rightarrow> Series list result" where
  "newSeriess options init [] = Ok []"
| "newSeriess options init (ct # cts) =
     (case NewSeries (columnKind options ct) (CTName ct) init of
        Panic p \<Rightarrow> Panic p
      | Err e \<Rightarrow> Err e
      | Ok s \<Rightarrow>
          (case newSeriess options init cts of
             Panic p \<Rightarrow> Panic p
           | Err e \<Rightarrow> Err e
           | Ok ss \<Rightarrow> Ok (s # ss)))"

text \<open>The coercion of one non-nil value: lines 232 to 332.\<close>

definition forceBool :: "nat \<Rightarrow> string \<Rightarrow> string \<Rightarrow> error + val" where
  "forceBool row fieldName val =
     (if val = ''true'' \<or> val = ''TRUE'' \<or> val = ''True'' \<or> val = ''1'' then Inr (VInt64 1)
      else if val = ''false'' \<or> val = ''FALSE'' \<or> val = ''False'' \<or> val = ''0'' then Inr (VInt64 0)
      else Inl (CantForce val ToBool (row - 1) fieldName))"

definition forceInt :: "nat \<Rightarrow> string \<Rightarrow> string \<Rightarrow> error + val" where
  "forceInt row fieldName val =
     (case ParseInt val of
        None \<Rightarrow> Inl (CantForce val ToInt (row - 1) fieldName)
      | Some i \<Rightarrow> Inr (VInt64 i))"

definition forceFloat :: "stdlib \<Rightarrow> nat \<Rightarrow> string \<Rightarrow> string \<Rightarrow> error + val" where
  "forceFloat lib row fieldName val =
     (case ParseFloat lib val of
        None \<Rightarrow> Inl (CantForce val ToFloat64 (row - 1) fieldName)
      | Some f \<Rightarrow> Inr (VFloat64 f))"

definition forceTime :: "stdlib \<Rightarrow> int \<Rightarrow> nat \<Rightarrow> string \<Rightarrow> string \<Rightarrow> error + val" where
  "forceTime lib database row fieldName val =
     (let layout = (if database = MySQL then ''2006-01-02 15:04:05'' else RFC3339)
      in case TimeParse lib layout val of
           Some t \<Rightarrow> Inr (VTime t)
         | None \<Rightarrow>
             (case ParseInt val of
                None \<Rightarrow> Inl (CantForce val (ToTime layout) (row - 1) fieldName)
              | Some sec \<Rightarrow> Inr (VTime (GoTime (sint sec) 0))))"

definition forceDictated :: "stdlib \<Rightarrow> int \<Rightarrow> nat \<Rightarrow> string \<Rightarrow> dictated \<Rightarrow> string \<Rightarrow> error + val" where
  "forceDictated lib database row fieldName dtyp val =
     (case dtyp of
        DFloat64 \<Rightarrow> forceFloat lib row fieldName val
      | DInt64 \<Rightarrow> forceInt row fieldName val
      | DString \<Rightarrow> Inr (VString val)
      | DBool \<Rightarrow> forceBool row fieldName val
      | DTime \<Rightarrow> forceTime lib database row fieldName val
      | DNewSerieser T \<Rightarrow> Inr (VString val)
      | DConverter concreteType converterFunc \<Rightarrow>
          (case converterFunc val of
             Inl err \<Rightarrow> Inl (CantForce val ToGeneric (row - 1) fieldName)
           | Inr cv \<Rightarrow> Inr cv)
      | DOtherType T \<Rightarrow> Inr (VString val))"

definition forceColType :: "stdlib \<Rightarrow> int \<Rightarrow> nat \<Rightarrow> string \<Rightarrow> string \<Rightarrow> string \<Rightarrow> error + val" where
  "forceColType lib database row fieldName colType val =
     (if colType \<in> set [''VARCHAR'', ''TEXT'', ''NVARCHAR'', ''MEDIUMTEXT'', ''LONGTEXT'']
        then Inr (VString val)
      else if colType \<in> set [''FLOAT'', ''DOUBLE'', ''DECIMAL'', ''NUMERIC'', ''FLOAT4'', ''FLOAT8'']
        then forceFloat lib row fieldName val
      else if colType \<in> set [''INT'', ''TINYINT'', ''INT2'', ''INT4'', ''INT8'', ''MEDIUMINT'',
                              ''SMALLINT'', ''BIGINT'']
        then forceInt row fieldName val
      else if colType = ''BOOL'' then forceBool row fieldName val
      else if colType \<in> set [''DATETIME'', ''TIMESTAMP'', ''TIMESTAMPTZ'']
        then forceTime lib database row fieldName val
      else Inr (VString val))"

definition forceSQL :: "stdlib \<Rightarrow> SQLLoadOptions option \<Rightarrow> int \<Rightarrow> nat \<Rightarrow> ColumnType \<Rightarrow> string \<Rightarrow> error + val" where
  "forceSQL lib options database row ct val =
     (case dictatedSQL options (CTName ct) of
        Some dtyp \<Rightarrow> forceDictated lib database row (CTName ct) dtyp val
      | None \<Rightarrow> forceColType lib database row (CTName ct) (DatabaseTypeName ct) val)"

text \<open>
  The loop over the columns of one scanned row (lines 214 to 333), which fills
  \<^verbatim>\<open>insertVals\<close>; a nil slice stores nil without any coercion.
\<close>

fun rowVals :: "stdlib \<Rightarrow> SQLLoadOptions option \<Rightarrow> int \<Rightarrow> nat \<Rightarrow> (ColumnType \<times> string option) list
    \<Rightarrow> (string \<rightharpoonup> val) \<Rightarrow> error + (string \<rightharpoonup> val)" where
  "rowVals lib options database row [] insertVals = Inr insertVals"
| "rowVals lib options database row ((ct, elem) # rest) insertVals =
     (case elem of
        None \<Rightarrow> rowVals lib options database row rest (insertVals(CTName ct \<mapsto> VNil))
      | Some val \<Rightarrow>
          (case forceSQL lib options database row ct val of
             Inl e \<Rightarrow> Inl e
           | Inr v \<Rightarrow> rowVals lib options database row rest (insertVals(CTName ct \<mapsto> v))))"

text \<open>
  \<^verbatim>\<open>rowData\<close> has one entry per column, each made as an empty, non-nil slice that
  \<^verbatim>\<open>Scan\<close> overwrites.
\<close>

definition rowData :: "nat \<Rightarrow> string option list \<Rightarrow> string option list" where
  "rowData totalColumns scanned =
     map (\<lambda>i. if i < length scanned then scanned ! i else Some []) [0..<totalColumns]"

text \<open>The loop over \<^verbatim>\<open>rows.Next()\<close>: lines 202 to 340. It returns the row counter and the table.\<close>

fun sqlLoop :: "stdlib \<Rightarrow> SQLLoadOptions option \<Rightarrow> int \<Rightarrow> SeriesInit option \<Rightarrow> ColumnType list
    \<Rightarrow> (string + string option list) list \<Rightarrow> nat \<Rightarrow> DataFrame \<Rightarrow> (nat \<times> DataFrame) result" where
  "sqlLoop lib options database init cols [] row df = Ok (row, df)"
| "sqlLoop lib options database init cols (scan # scans) row df =
     (case scan of
        Inl e \<Rightarrow> Err (ScanErr e)
      | Inr scanned \<Rightarrow>
          (case rowVals lib options database (Suc row) (zip cols (rowData (length cols) scanned))
                  Map.empty of
             Inl e \<Rightarrow> Err e
           | Inr insertVals \<Rightarrow>
               (case UpdateRow row insertVals (if init = None then Append df else df) of
                  None \<Rightarrow> Panic ''index out of range''
                | Some df' \<Rightarrow> sqlLoop lib options database init cols scans (Suc row) df')))"

text \<open>The removal of the unused preallocated rows: lines 350 to 359.\<close>

function removeExcess :: "int \<Rightarrow> DataFrame \<Rightarrow> DataFrame result" where
  "removeExcess excess df =
     (if excess \<le> 0 then Ok df
      else (case Remove (int (NRows df) - 1) df of
              None \<Rightarrow> Panic ''index out of range''
            | Some df' \<Rightarrow> removeExcess (excess - 1) df'))"
  by pat_completeness auto
termination
  by (relation "measure (\<lambda>(excess, df). nat excess)") auto

definition queryContext :: "ctx \<Rightarrow> stmt \<Rightarrow> SQLLoadOptions option \<Rightarrow> val list \<Rightarrow> (string + rows) option" where
  "queryContext ctx stmt options args =
     (case stmt of
        QueryContexter1 q \<Rightarrow> Some (q ctx args)
      | QueryContexter2 q \<Rightarrow> Some (q ctx args)
      | QueryContexter3 q \<Rightarrow>
          Some (q ctx (case options of None \<Rightarrow> [] | Some opt \<Rightarrow> Query opt) args)
      | QueryContexter4 q \<Rightarrow>
          Some (q ctx (case options of None \<Rightarrow> [] | Some opt \<Rightarrow> Query opt) args)
      | NotAStmt T \<Rightarrow> None)"

text \<open>
  \<^verbatim>\<open>LoadFromSQL\<close>. The table pointer \<^verbatim>\<open>df\<close> is \<open>None\<close> while nil; \<^verbatim>\<open>NewDataFrame\<close> assigns
  it before the loop over the rows.
\<close>

definition LoadFromSQL :: "stdlib \<Rightarrow> ctx \<Rightarrow> stmt \<Rightarrow> SQLLoadOptions option \<Rightarrow> val list \<Rightarrow> DataFrame result" where
  "LoadFromSQL lib ctx stmt options args =
     (let init = (case options of
                    None \<Rightarrow> None
                  | Some opt \<Rightarrow>
                      (case KnownRowCount opt of None \<Rightarrow> None | Some k \<Rightarrow> Some \<lparr>Size = k\<rparr>));
          database = (case options of None \<Rightarrow> 0 | Some opt \<Rightarrow> Database opt)
      in if options \<noteq> None \<and> database \<noteq> PostgreSQL \<and> database \<noteq> MySQL then Err InvalidDatabase
         else
           (case queryContext ctx stmt options args of
              None \<Rightarrow>
                Panic (''interface conversion: '' @ (case stmt of NotAStmt T \<Rightarrow> T | _ \<Rightarrow> [])
                       @ '' is not a valid Stmt'')
            | Some (Inl err) \<Rightarrow> Err (QueryErr err)
            | Some (Inr rows) \<Rightarrow>
                (let cols = ColumnTypes rows; totalColumns = length cols
                 in if totalColumns \<le> 0 then Err NoSeriesFound
                    else
                      (case newSeriess options init cols of
                         Panic p \<Rightarrow> Panic p
                       | Err e \<Rightarrow> Err e
                       | Ok seriess \<Rightarrow>
                           (case NewDataFrame seriess of
                              Panic p \<Rightarrow> Panic p
                            | Err e \<Rightarrow> Err e
                            | Ok df0 \<Rightarrow>
                                (case sqlLoop lib options database init cols (Scans rows) 0 df0 of
                                   Panic p \<Rightarrow> Panic p
                                 | Err e \<Rightarrow> Err e
                                 | Ok (row, df1) \<Rightarrow>
                                     (case RowsError rows of
                                        Some err \<Rightarrow> Err (RowsErr err)
                                      | None \<Rightarrow>
                                          (case Some df1 of
                                             None \<Rightarrow> Err ErrNoRows
                                           | Some df \<Rightarrow>
                                               (case init of
                                                  None \<Rightarrow> Ok df
                                                | Some i \<Rightarrow>
                                                    removeExcess (Size i - int (NRows df)) df)))))))))"

section \<open>The structured-record path: LoadFromJSON\<close>

text \<open>
  A value of a flattened record: a string, a \<^verbatim>\<open>json.Number\<close> (the literal text of the
  number, which is what its \<^verbatim>\<open>String\<close> method returns), a boolean, null, or anything else
  (an array).
\<close>

datatype jval = JString string | JNumber string | JBool bool | JNull | JArray

datatype token = Delim string | OtherToken

text \<open>
  The stream as \<^verbatim>\<open>encoding/json\<close> delivers it: \<open>Tokens\<close> is what the successive calls of
  \<^verbatim>\<open>dec.Token\<close> of the counting pass return, \<open>Records\<close> what the successive calls of
  \<^verbatim>\<open>dec.Decode\<close> return after the stream is back at its start; \<open>Inl\<close> is an error other
  than io.EOF, and io.EOF is the end of the list. A decoded record is given as
  \<^verbatim>\<open>parseObject(raw, "")\<close> returns it (\<^verbatim>\<open>parseObject\<close> is not among the sources): the
  fields and their values, in the order in which the loader's \<^verbatim>\<open>range\<close> loops visit them.
\<close>

record reader =
  Tokens :: "(string + token) list"
  Records :: "(string + (string \<times> jval) list) list"

record JSONLoadOptions =
  LargeDataSet :: bool
  DictateDataTypeJ :: "(string \<times> dictated) list"
  ErrorOnUnknownFields :: bool

text \<open>
  \<^verbatim>\<open>dictateForce(row, insertVals, name, typ, val)\<close> is not among the sources. It is a
  parameter of the model: given the row, the field name, the override and the raw value
  it returns an error, or the value it stores in \<^verbatim>\<open>insertVals[name]\<close> (\<open>None\<close> when it stores
  nothing); it stores under no other name.
\<close>

type_synonym dictateForce = "nat \<Rightarrow> string \<Rightarrow> dictated \<Rightarrow> jval \<Rightarrow> error + val option"

text \<open>
  Modelled from the spec: the raw lexical form of a value of a record. The spec has the
  Raw Row as "an untyped association from field name to one of {nil, rawString,
  rawNumber, rawBool}": the form is the string itself, the literal of the number as the
  input has it, and the literal of the boolean. Nil has no form, and neither has a value
  of another kind.
\<close>

definition rawLexical :: "jval \<Rightarrow> string option" where
  "rawLexical val =
     (case val of
        JString s \<Rightarrow> Some s
      | JNumber s \<Rightarrow> Some s
      | JBool b \<Rightarrow> Some (if b then ''true'' else ''false'')
      | JNull \<Rightarrow> None
      | JArray \<Rightarrow> None)"

text \<open>
  Modelled from the spec: \<^verbatim>\<open>dictateForce\<close>, as section 4.4 of the spec has the coercion of a
  value of a column with a declared type. "If the raw value is null/absent, the column
  cell is set to an explicit null; no coercion function runs. Otherwise the value is
  coerced per the column's declared type", by the type coercion rules, which the spec
  has as one component that the two paths share, "pure functions mapping (raw scalar,
  target type, source dialect)": they are taken as the query path has them
  (\<^verbatim>\<open>forceDictated\<close>), applied to the raw lexical form, for the dialect given. For a
  converter that is the rule "invoke the attached converter function with the raw
  lexical form; any error it returns is wrapped and propagated as
  CoercionError{targetType=Generic}".
\<close>

definition dictateForceSpec :: "stdlib \<Rightarrow> int \<Rightarrow> dictateForce" where
  "dictateForceSpec lib database row name typ val =
     (case rawLexical val of
        None \<Rightarrow> Inr (Some VNil)
      | Some s \<Rightarrow>
          (case forceDictated lib database row name typ s of
             Inl err \<Rightarrow> Inl err
           | Inr v \<Rightarrow> Inr (Some v)))"

text \<open>The counting pass: lines 43 to 77. It returns the size and the number of context checks made.\<close>

fun countRows :: "ctx \<Rightarrow> nat \<Rightarrow> (string + token) list \<Rightarrow> int \<Rightarrow> int \<Rightarrow> (int \<times> nat) result" where
  "countRows ctx t [] tokenCount sz =
     (case ctx t of
        Some err \<Rightarrow> Err (CtxErr err)
      | None \<Rightarrow> Ok (sz, Suc t))"
| "countRows ctx t (tok # toks) tokenCount sz =
     (case ctx t of
        Some err \<Rightarrow> Err (CtxErr err)
      | None \<Rightarrow>
          (case tok of
             Inl err \<Rightarrow> Err (TokenErr err)
           | Inr OtherToken \<Rightarrow> countRows ctx (Suc t) toks tokenCount sz
           | Inr (Delim delim) \<Rightarrow>
               if delim = ''{'' then countRows ctx (Suc t) toks (tokenCount + 1) sz
               else if delim = ''}'' then
                 countRows ctx (Suc t) toks (tokenCount - 1)
                   (if tokenCount - 1 = 0 then sz + 1 else sz)
               else countRows ctx (Suc t) toks tokenCount sz))"

definition prepass :: "ctx \<Rightarrow> reader \<Rightarrow> JSONLoadOptions option \<Rightarrow> (SeriesInit option \<times> nat) result" where
  "prepass ctx r options =
     (case options of
        None \<Rightarrow> Ok (None, 0)
      | Some opt \<Rightarrow>
          if LargeDataSet opt then
            (case countRows ctx 0 (Tokens r) 0 0 of
               Panic p \<Rightarrow> Panic p
             | Err e \<Rightarrow> Err e
             | Ok (sz, t) \<Rightarrow> Ok (Some \<lparr>Size = sz\<rparr>, t))
          else Ok (None, 0))"

text \<open>The series of a field of the first record: lines 111 to 147.\<close>

definition dictatedKindJSON :: "dictated \<Rightarrow> kind" where
  "dictatedKindJSON typ =
     (case typ of
        DFloat64 \<Rightarrow> KFloat64
      | DInt64 \<Rightarrow> KInt64
      | DBool \<Rightarrow> KInt64
      | DString \<Rightarrow> KString
      | DTime \<Rightarrow> KTime
      | DNewSerieser T \<Rightarrow> KCustom T
      | DConverter concreteType converterFunc \<Rightarrow>
          (case concreteType of TTime \<Rightarrow> KTime | TNamed T \<Rightarrow> KGeneric concreteType)
      | DOtherType T \<Rightarrow> KGeneric (TNamed T))"

text \<open>
  The lookup \<^verbatim>\<open>len(options) > 0 && len(options[0].DictateDataType) > 0\<close> followed by
  \<^verbatim>\<open>typ, exists := options[0].DictateDataType[name]\<close>, at lines 114, 158 and 223; \<open>None\<close>
  when the field has no entry.
\<close>

definition dictatedJSON :: "JSONLoadOptions option \<Rightarrow> string \<Rightarrow> dictated option" where
  "dictatedJSON options name =
     (case options of
        None \<Rightarrow> None
      | Some opt \<Rightarrow>
          if 0 < length (DictateDataTypeJ opt) then map_of (DictateDataTypeJ opt) name else None)"

definition fieldKind :: "JSONLoadOptions option \<Rightarrow> string \<Rightarrow> kind" where
  "fieldKind options name =
     (case dictatedJSON options name of
        None \<Rightarrow> KString
      | Some typ \<Rightarrow> dictatedKindJSON typ)"

fun fieldSeriess :: "JSONLoadOptions option \<Rightarrow> SeriesInit option \<Rightarrow> (string \<times> jval) list \<Rightarrow> Series list result" where
  "fieldSeriess options init [] = Ok []"
| "fieldSeriess options init ((name, val) # vals) =
     (case NewSeries (fieldKind options name) name init of
        Panic p \<Rightarrow> Panic p
      | Err e \<Rightarrow> Err e
      | Ok s \<Rightarrow>
          (case fieldSeriess options init vals of
             Panic p \<Rightarrow> Panic p
           | Err e \<Rightarrow> Err e
           | Ok ss \<Rightarrow> Ok (s # ss)))"

text \<open>
  The value stored for a field that has no override, as a string: the switch of lines
  164 to 175, again at 185 to 196, 229 to 240 and 250 to 261. A value of no case of the
  switch stores nothing.
\<close>

fun storeString :: "(string \<rightharpoonup> val) \<Rightarrow> string \<Rightarrow> jval \<Rightarrow> (string \<rightharpoonup> val)" where
  "storeString insertVals name (JString v) = insertVals(name \<mapsto> VString v)"
| "storeString insertVals name (JNumber v) = insertVals(name \<mapsto> VString v)"
| "storeString insertVals name (JBool v) =
     (if v then insertVals(name \<mapsto> VString ''1'') else insertVals(name \<mapsto> VString ''0''))"
| "storeString insertVals name JNull = insertVals"
| "storeString insertVals name JArray = insertVals"

text \<open>The store of one field: lines 158 to 197, again at 223 to 262.\<close>

definition storeValue :: "dictateForce \<Rightarrow> JSONLoadOptions option \<Rightarrow> nat \<Rightarrow> (string \<rightharpoonup> val) \<Rightarrow> string \<Rightarrow> jval
    \<Rightarrow> error + (string \<rightharpoonup> val)" where
  "storeValue dictateForce options row insertVals name val =
     (case dictatedJSON options name of
        None \<Rightarrow> Inr (storeString insertVals name val)
      | Some typ \<Rightarrow>
          (case dictateForce row name typ val of
             Inl err \<Rightarrow> Inl err
           | Inr None \<Rightarrow> Inr insertVals
           | Inr (Some v) \<Rightarrow> Inr (insertVals(name \<mapsto> v))))"

text \<open>The values of the first record: lines 153 to 199.\<close>

fun firstVals :: "dictateForce \<Rightarrow> JSONLoadOptions option \<Rightarrow> nat \<Rightarrow> (string \<times> jval) list \<Rightarrow> (string \<rightharpoonup> val)
    \<Rightarrow> error + (string \<rightharpoonup> val)" where
  "firstVals dictateForce options row [] insertVals = Inr insertVals"
| "firstVals dictateForce options row ((name, val) # vals) insertVals =
     (case storeValue dictateForce options row insertVals name val of
        Inl err \<Rightarrow> Inl err
      | Inr insertVals' \<Rightarrow> firstVals dictateForce options row vals insertVals')"

text \<open>The values of a later record: lines 208 to 263.\<close>

definition strict :: "JSONLoadOptions option \<Rightarrow> bool" where
  "strict options = (case options of None \<Rightarrow> False | Some opt \<Rightarrow> ErrorOnUnknownFields opt)"

fun laterVals :: "dictateForce \<Rightarrow> JSONLoadOptions option \<Rightarrow> (string \<times> jval) list \<Rightarrow> nat
    \<Rightarrow> (string \<times> jval) list \<Rightarrow> (string \<rightharpoonup> val) \<Rightarrow> error + (string \<rightharpoonup> val)" where
  "laterVals dictateForce options knownFields row [] insertVals = Inr insertVals"
| "laterVals dictateForce options knownFields row ((name, val) # vals) insertVals =
     (if map_of knownFields name = None then
        (if strict options then Inl (UnknownField (row - 1) name)
         else laterVals dictateForce options knownFields row vals insertVals)
      else
        (case storeValue dictateForce options row insertVals name val of
           Inl err \<Rightarrow> Inl err
         | Inr insertVals' \<Rightarrow> laterVals dictateForce options knownFields row vals insertVals'))"

text \<open>The state of the loop over the records: lines 79 to 82.\<close>

record loopState =
  Row :: nat
  Df :: "DataFrame option"
  KnownFields :: "(string \<times> jval) list"

text \<open>The body of the loop for the first record (lines 103 to 204) and for a later one.\<close>

definition firstRow :: "dictateForce \<Rightarrow> JSONLoadOptions option \<Rightarrow> SeriesInit option \<Rightarrow> (string \<times> jval) list
    \<Rightarrow> loopState \<Rightarrow> unit result \<times> loopState" where
  "firstRow dictateForce options init vals st =
     (let st1 = st\<lparr>Row := Suc (Row st), KnownFields := vals\<rparr>
      in case fieldSeriess options init vals of
           Panic p \<Rightarrow> (Panic p, st1)
         | Err e \<Rightarrow> (Err e, st1)
         | Ok seriess \<Rightarrow>
             (case NewDataFrame seriess of
                Panic p \<Rightarrow> (Panic p, st1)
              | Err e \<Rightarrow> (Err e, st1)
              | Ok df \<Rightarrow>
                  (case firstVals dictateForce options (Row st1) vals Map.empty of
                     Inl err \<Rightarrow> (Err err, st1\<lparr>Df := Some df\<rparr>)
                   | Inr insertVals \<Rightarrow>
                       (let df1 = (if init = None then Append df else df)
                        in case UpdateRow (Row st1 - 1) insertVals df1 of
                             None \<Rightarrow> (Panic ''index out of range'', st1\<lparr>Df := Some df1\<rparr>)
                           | Some df2 \<Rightarrow> (Ok (), st1\<lparr>Df := Some df2\<rparr>)))))"

definition laterRow :: "dictateForce \<Rightarrow> JSONLoadOptions option \<Rightarrow> SeriesInit option \<Rightarrow> (string \<times> jval) list
    \<Rightarrow> loopState \<Rightarrow> unit result \<times> loopState" where
  "laterRow dictateForce options init vals st =
     (let st1 = st\<lparr>Row := Suc (Row st)\<rparr>
      in case laterVals dictateForce options (KnownFields st1) (Row st1) vals Map.empty of
           Inl err \<Rightarrow> (Err err, st1)
         | Inr insertVals \<Rightarrow>
             (case Df st1 of
                None \<Rightarrow> (Panic ''nil pointer dereference'', st1)
              | Some df \<Rightarrow>
                  (let df1 = (if init = None then Append df else df)
                   in case UpdateRow (Row st1 - 1) insertVals df1 of
                        None \<Rightarrow> (Panic ''index out of range'', st1\<lparr>Df := Some df1\<rparr>)
                      | Some df2 \<Rightarrow> (Ok (), st1\<lparr>Df := Some df2\<rparr>))))"

text \<open>
  The loop over the records: lines 86 to 271. It returns how it ended and the state it
  ended in; \<open>t\<close> counts the context checks made so far.
\<close>

fun jsonLoop :: "dictateForce \<Rightarrow> ctx \<Rightarrow> JSONLoadOptions option \<Rightarrow> SeriesInit option \<Rightarrow> nat
    \<Rightarrow> (string + (string \<times> jval) list) list \<Rightarrow> loopState \<Rightarrow> unit result \<times> loopState" where
  "jsonLoop dictateForce ctx options init t [] st =
     (case ctx t of
        Some err \<Rightarrow> (Err (CtxErr err), st)
      | None \<Rightarrow> (Ok (), st))"
| "jsonLoop dictateForce ctx options init t (rcd # records) st =
     (case ctx t of
        Some err \<Rightarrow> (Err (CtxErr err), st)
      | None \<Rightarrow>
          (case rcd of
             Inl err \<Rightarrow> (Err (DecodeErr err), st)
           | Inr vals \<Rightarrow>
               (let (res, st') =
                      (if Suc (Row st) = 1 then firstRow dictateForce options init vals st
                       else laterRow dictateForce options init vals st)
                in case res of
                     Panic p \<Rightarrow> (Panic p, st')
                   | Err e \<Rightarrow> (Err e, st')
                   | Ok u \<Rightarrow> jsonLoop dictateForce ctx options init (Suc t) records st')))"

text \<open>\<^verbatim>\<open>LoadFromJSON\<close>: lines 39 to 283.\<close>

definition LoadFromJSON :: "dictateForce \<Rightarrow> ctx \<Rightarrow> reader \<Rightarrow> JSONLoadOptions option \<Rightarrow> DataFrame result" where
  "LoadFromJSON dictateForce ctx r options =
     (case prepass ctx r options of
        Panic p \<Rightarrow> Panic p
      | Err e \<Rightarrow> Err e
      | Ok (init, t) \<Rightarrow>
          (case jsonLoop dictateForce ctx options init t (Records r)
                  \<lparr>Row = 0, Df = None, KnownFields = []\<rparr> of
             (Panic p, st) \<Rightarrow> Panic p
           | (Err e, st) \<Rightarrow> Err e
           | (Ok u, st) \<Rightarrow>
               (case Df st of
                  None \<Rightarrow> Err ErrNoRows
                | Some df \<Rightarrow> Ok (ReorderColumns (sort (Names df)) df))))"

section \<open>The reversal utility: Reverse\<close>

text \<open>
  \<^verbatim>\<open>dataframe.Range\<close> and its methods \<^verbatim>\<open>Limits\<close> and \<^verbatim>\<open>NRows\<close> are not among the sources, and
  the spec does not describe them: a range is a parameter of the model, given by what the
  two methods return for a number of rows: \<open>Limits\<close> an error or the first and last
  position, \<open>RangeNRows\<close> a number of rows and an error the utility drops. \<open>emptyRange\<close>
  below stands for \<^verbatim>\<open>&dataframe.Range{}\<close>.
\<close>

record Range =
  Limits :: "int \<Rightarrow> string + (int \<times> int)"
  RangeNRows :: "int \<Rightarrow> int \<times> string option"

record ReverseOptions =
  R :: "Range option"
  DontLock :: bool

text \<open>Go's integer division truncates towards zero.\<close>

definition go_div :: "int \<Rightarrow> int \<Rightarrow> int" where
  "go_div a b = sgn a * sgn b * (\<bar>a\<bar> div \<bar>b\<bar>)"

text \<open>
  Modelled from the spec: the table or series behind the interface \<^verbatim>\<open>common\<close> is the list
  of its rows; \<^verbatim>\<open>NRows\<close> is its length and \<^verbatim>\<open>Swap\<close> exchanges two rows, \<open>None\<close> (a panic)
  when a position is outside the rows. Locking is not modelled.
\<close>

definition Swap :: "int \<Rightarrow> int \<Rightarrow> 'a list \<Rightarrow> 'a list option" where
  "Swap row1 row2 sdf =
     (if 0 \<le> row1 \<and> row1 < int (length sdf) \<and> 0 \<le> row2 \<and> row2 < int (length sdf)
      then Some (sdf[nat row1 := sdf ! nat row2, nat row2 := sdf ! nat row1])
      else None)"

text \<open>The loop of lines 60 to 66; \<open>t\<close> counts the context checks made so far.\<close>

function reverseLoop :: "ctx \<Rightarrow> nat \<Rightarrow> int \<Rightarrow> int \<Rightarrow> int \<Rightarrow> 'a list \<Rightarrow> unit result \<times> 'a list" where
  "reverseLoop ctx t rRows start i sdf =
     (if 0 \<le> i then
        (case ctx t of
           Some err \<Rightarrow> (Err (CtxErr err), sdf)
         | None \<Rightarrow>
             (let opp = rRows - 1 - i
              in case Swap (i + start) (opp + start) sdf of
                   None \<Rightarrow> (Panic ''index out of range'', sdf)
                 | Some sdf' \<Rightarrow> reverseLoop ctx (Suc t) rRows start (i - 1) sdf'))
      else (Ok (), sdf))"
  by pat_completeness auto
termination
  by (relation "measure (\<lambda>(ctx, t, rRows, start, i, sdf). nat (i + 1))") auto

text \<open>The range of the call: lines 33 to 37.\<close>

definition reverseRange :: "Range \<Rightarrow> ReverseOptions option \<Rightarrow> Range" where
  "reverseRange emptyRange opts =
     (case opts of
        None \<Rightarrow> emptyRange
      | Some opt \<Rightarrow> (case R opt of None \<Rightarrow> emptyRange | Some r \<Rightarrow> r))"

text \<open>\<^verbatim>\<open>Reverse\<close>: it returns its error (\<open>Ok ()\<close> is nil) and the rows as it leaves them.\<close>

definition Reverse :: "Range \<Rightarrow> ctx \<Rightarrow> 'a list \<Rightarrow> ReverseOptions option \<Rightarrow> unit result \<times> 'a list" where
  "Reverse emptyRange ctx sdf opts =
     (let rg = reverseRange emptyRange opts;
          nRows = int (length sdf)
      in if nRows = 0 then (Ok (), sdf)
         else
           (case Limits rg nRows of
              Inl err \<Rightarrow> (Err (RangeErr err), sdf)
            | Inr (start, uu) \<Rightarrow>
                (let rRows = fst (RangeNRows rg nRows)
                 in if rRows = 1 \<or> rRows = 0 then (Ok (), sdf)
                    else reverseLoop ctx 0 rRows start (go_div rRows 2 - 1) sdf)))"

text \<open>The rows after the swaps of the positions \<open>start + i\<close> and \<open>start + (r - 1 - i)\<close> for \<open>i\<close> from \<open>k - 1\<close> down to 0.\<close>

definition swapped :: "nat \<Rightarrow> nat \<Rightarrow> nat \<Rightarrow> 'a list \<Rightarrow> 'a list" where
  "swapped start r k xs =
     fold (\<lambda>i ys. ys[start + i := ys ! (start + (r - 1 - i)), start + (r - 1 - i) := ys ! (start + i)])
       (rev [0..<k]) xs"

text \<open>The rows after the swaps of these positions for \<open>i\<close> from \<open>k - 1\<close> down to \<open>lo\<close> only: the swaps the loop has made when it has gone through \<open>k - lo\<close> of its rounds.\<close>

definition swappedFrom :: "nat \<Rightarrow> nat \<Rightarrow> nat \<Rightarrow> nat \<Rightarrow> 'a list \<Rightarrow> 'a list" where
  "swappedFrom start r lo k xs =
     fold (\<lambda>i ys. ys[start + i := ys ! (start + (r - 1 - i)), start + (r - 1 - i) := ys ! (start + i)])
       (rev [lo..<k]) xs"

section \<open>Predicates on the table, for the statements below\<close>

text \<open>Every series of the table has as many values as the table has rows.\<close>

definition wellFormed :: "DataFrame \<Rightarrow> bool" where
  "wellFormed df = list_all (\<lambda>s. length (Values s) = n df) (Series df)"

text \<open>No row of index \<open>r\<close> or more holds a value: whatever rows there are from \<open>r\<close> on are nil in every series.\<close>

definition nilFrom :: "nat \<Rightarrow> DataFrame \<Rightarrow> bool" where
  "nilFrom r df = list_all (\<lambda>s. list_all (\<lambda>v. v = VNil) (drop r (Values s))) (Series df)"

text \<open>
  The state of the loop over the records once the first record is in: the table is there,
  its columns are the known fields, each once, and the rows from the row counter on are
  nil; with no preallocation the table has as many rows as the counter says.
\<close>

definition loopInv :: "SeriesInit option \<Rightarrow> loopState \<Rightarrow> bool" where
  "loopInv init st =
     (case Df st of
        None \<Rightarrow> False
      | Some df \<Rightarrow>
          wellFormed df \<and> Names df = map fst (KnownFields st) \<and> distinct (Names df)
          \<and> nilFrom (Row st) df \<and> (if init = None then n df = Row st else True)
          \<and> 0 < Row st)"


section \<open>Lemmas on the table\<close>

lemma find_map_Name:
  assumes "\<And>s. Name (f s) = Name s"
  shows "find (\<lambda>s. Name s = name) (map f ss) = map_option f (find (\<lambda>s. Name s = name) ss)"
  using assms by (induction ss) auto

lemma find_Name: "find (\<lambda>s. Name s = name) ss = Some s \<Longrightarrow> Name s = name \<and> s \<in> set ss"
  by (induction ss) (auto split: if_splits)

lemma find_Name_None: "find (\<lambda>s. Name s = name) ss = None \<longleftrightarrow> name \<notin> set (map Name ss)"
  by (induction ss) auto

lemma Names_Append [simp]: "Names (Append df) = Names df"
  by (simp add: Names_def Append_def comp_def)

lemma Names_UpdateRow:
  assumes "UpdateRow r vals df = Some df'"
  shows "Names df' = Names df"
proof -
  let ?f = "\<lambda>s. case vals (Name s) of None \<Rightarrow> s | Some v \<Rightarrow> s\<lparr>Values := (Values s)[r := v]\<rparr>"
  have "Name (?f s) = Name s" for s by (simp split: option.splits)
  then have "map Name (map ?f ss) = map Name ss" for ss by (induction ss) auto
  moreover have "Series df' = map ?f (Series df)"
    using assms by (auto simp: UpdateRow_def split: if_splits)
  ultimately show ?thesis by (simp only: Names_def)
qed

lemma n_Append [simp]: "n (Append df) = Suc (n df)"
  by (simp add: Append_def)

lemma n_UpdateRow: "UpdateRow r vals df = Some df' \<Longrightarrow> n df' = n df \<and> r < n df"
  by (auto simp: UpdateRow_def NRows_def split: if_splits)

lemma wellFormed_Append: "wellFormed df \<Longrightarrow> wellFormed (Append df)"
  by (simp add: wellFormed_def Append_def list_all_iff)

lemma wellFormed_UpdateRow: "UpdateRow r vals df = Some df' \<Longrightarrow> wellFormed df \<Longrightarrow> wellFormed df'"
  by (auto simp: wellFormed_def UpdateRow_def list_all_iff split: if_splits option.splits)

lemma cell_Append:
  assumes "wellFormed df" "name \<in> set (Names df)"
  shows "cell (Append df) name r =
     (if r < n df then cell df name r else if r = n df then Some VNil else None)"
proof -
  obtain s where s: "find (\<lambda>s. Name s = name) (Series df) = Some s"
    using assms(2) find_Name_None[of name "Series df"] by (auto simp: Names_def)
  then have len: "length (Values s) = n df"
    using assms(1) find_Name[OF s] by (simp add: wellFormed_def list_all_iff)
  have "find (\<lambda>s. Name s = name) (Series (Append df)) = Some (s\<lparr>Values := Values s @ [VNil]\<rparr>)"
    unfolding Append_def by (simp add: find_map_Name s)
  then show ?thesis using s len by (auto simp: cell_def nth_append)
qed

lemma cell_UpdateRow:
  assumes "UpdateRow r vals df = Some df'" "wellFormed df" "name \<in> set (Names df)"
  shows "cell df' name r' =
     (if r' = r then (case vals name of Some v \<Rightarrow> Some v | None \<Rightarrow> cell df name r)
      else cell df name r')"
proof -
  obtain s where s: "find (\<lambda>s. Name s = name) (Series df) = Some s"
    using assms(3) find_Name_None[of name "Series df"] by (auto simp: Names_def)
  then have len: "length (Values s) = n df" and nm: "Name s = name"
    using assms(2) find_Name[OF s] by (simp_all add: wellFormed_def list_all_iff)
  have r: "r < n df" using assms(1) n_UpdateRow by blast
  let ?f = "\<lambda>s. case vals (Name s) of None \<Rightarrow> s | Some v \<Rightarrow> s\<lparr>Values := (Values s)[r := v]\<rparr>"
  have f: "Name (?f s) = Name s" for s by (simp split: option.splits)
  have "Series df' = map ?f (Series df)"
    using assms(1) by (auto simp: UpdateRow_def split: if_splits)
  then have "find (\<lambda>s. Name s = name) (Series df') = Some (?f s)"
    using find_map_Name[of ?f name "Series df", OF f] s by simp
  then show ?thesis using s len nm r
    by (auto simp: cell_def split: option.splits)
qed

lemma nilFrom_cell:
  assumes "nilFrom r df" "wellFormed df" "name \<in> set (Names df)" "r \<le> r'" "r' < n df"
  shows "cell df name r' = Some VNil"
proof -
  obtain s where s: "find (\<lambda>s. Name s = name) (Series df) = Some s"
    using assms(3) find_Name_None[of name "Series df"] by (auto simp: Names_def)
  then have len: "length (Values s) = n df" and mem: "s \<in> set (Series df)"
    using assms(2) find_Name[OF s] by (simp_all add: wellFormed_def list_all_iff)
  have "\<forall>v\<in>set (drop r (Values s)). v = VNil"
    using assms(1) mem by (simp add: nilFrom_def list_all_iff)
  moreover have "Values s ! r' \<in> set (drop r (Values s))"
  proof -
    have "drop r (Values s) ! (r' - r) = Values s ! r'"
      using assms(4,5) len by simp
    moreover have "r' - r < length (drop r (Values s))"
      using assms(4,5) len by simp
    ultimately show ?thesis by (metis nth_mem)
  qed
  ultimately show ?thesis using s len assms(5) by (simp add: cell_def)
qed

lemma nilFrom_Append:
  assumes "nilFrom r df"
  shows "nilFrom r (Append df)"
  using assms by (auto simp: nilFrom_def Append_def list_all_iff dest: in_set_dropD)

lemma nilFrom_UpdateRow:
  assumes "UpdateRow r vals df = Some df'" "nilFrom r df" "wellFormed df"
  shows "nilFrom (Suc r) df'"
proof -
  let ?f = "\<lambda>s. case vals (Name s) of None \<Rightarrow> s | Some v \<Rightarrow> s\<lparr>Values := (Values s)[r := v]\<rparr>"
  have S: "Series df' = map ?f (Series df)"
    using assms(1) by (auto simp: UpdateRow_def split: if_splits)
  have "list_all (\<lambda>v. v = VNil) (drop (Suc r) (Values (?f s)))" if "s \<in> set (Series df)" for s
  proof -
    have "list_all (\<lambda>v. v = VNil) (drop r (Values s))"
      using assms(2) that by (simp add: nilFrom_def list_all_iff)
    then have "list_all (\<lambda>v. v = VNil) (drop (Suc r) (Values s))"
      using set_drop_subset_set_drop[of r "Suc r" "Values s"] by (auto simp: list_all_iff)
    then show ?thesis by (simp split: option.splits add: drop_update_cancel)
  qed
  then show ?thesis unfolding nilFrom_def S by (simp add: list_all_iff)
qed

lemma find_map_filter_Name:
  "find (\<lambda>s. Name s = name) (List.map_filter (\<lambda>nm. find (\<lambda>s. Name s = nm) ss) order) =
     (if name \<in> set order then find (\<lambda>s. Name s = name) ss else None)"
proof (induction order)
  case Nil
  then show ?case by (simp add: List.map_filter_simps)
next
  case (Cons nm order)
  show ?case
  proof (cases "find (\<lambda>s. Name s = nm) ss")
    case None
    then have "nm \<noteq> name \<or> find (\<lambda>s. Name s = name) ss = None" by auto
    then show ?thesis using None Cons by (auto simp: List.map_filter_simps)
  next
    case (Some s)
    then have "Name s = nm" using find_Name by blast
    then show ?thesis using Some Cons by (auto simp: List.map_filter_simps)
  qed
qed

lemma cell_ReorderColumns:
  "cell (ReorderColumns order df) name r = (if name \<in> set order then cell df name r else None)"
  by (simp add: cell_def ReorderColumns_def find_map_filter_Name)

lemma Names_ReorderColumns:
  "Names (ReorderColumns order df) = filter (\<lambda>nm. nm \<in> set (Names df)) order"
proof -
  have "map Name (List.map_filter (\<lambda>nm. find (\<lambda>s. Name s = nm) ss) order)
        = filter (\<lambda>nm. nm \<in> set (map Name ss)) order" for ss
  proof (induction order)
    case Nil
    then show ?case by (simp add: List.map_filter_simps)
  next
    case (Cons nm order)
    show ?case
    proof (cases "find (\<lambda>s. Name s = nm) ss")
      case None
      then show ?thesis using Cons find_Name_None[of nm ss] by (simp add: List.map_filter_simps)
    next
      case (Some s)
      then have "Name s = nm" "s \<in> set ss" using find_Name by blast+
      then show ?thesis using Some Cons by (auto simp: List.map_filter_simps)
    qed
  qed
  then show ?thesis by (simp add: Names_def ReorderColumns_def)
qed

lemma Names_ReorderColumns_sort:
  "Names (ReorderColumns (sort (Names df)) df) = sort (Names df)"
  by (simp add: Names_ReorderColumns)

section \<open>Lemmas on the loop over the records\<close>

subsection \<open>The values of a record\<close>

lemma storeString_other: "name' \<noteq> name \<Longrightarrow> storeString iv name val name' = iv name'"
  by (cases val) auto

lemma storeString_at:
  "storeString iv name val name =
     (case val of
        JString s \<Rightarrow> Some (VString s)
      | JNumber s \<Rightarrow> Some (VString s)
      | JBool b \<Rightarrow> Some (VString (if b then ''1'' else ''0''))
      | JNull \<Rightarrow> iv name
      | JArray \<Rightarrow> iv name)"
  by (cases val) auto

lemma storeValue_other:
  "storeValue dF options row iv name val = Inr iv' \<Longrightarrow> name' \<noteq> name \<Longrightarrow> iv' name' = iv name'"
  by (auto simp: storeValue_def storeString_other split: option.splits sum.splits)

lemma storeValue_no_override:
  "dictatedJSON options name = None \<Longrightarrow>
   storeValue dF options row iv name val = Inr (storeString iv name val)"
  by (simp add: storeValue_def)

lemma firstVals_other:
  assumes "firstVals dF options row vals iv0 = Inr iv" "name \<notin> set (map fst vals)"
  shows "iv name = iv0 name"
  using assms
proof (induction vals arbitrary: iv0)
  case Nil
  then show ?case by simp
next
  case (Cons a vals)
  obtain nm val where a: "a = (nm, val)" by (cases a)
  obtain iv1 where s: "storeValue dF options row iv0 nm val = Inr iv1"
    and r: "firstVals dF options row vals iv1 = Inr iv"
    using Cons.prems(1) a by (auto split: sum.splits)
  have "iv name = iv1 name" using Cons.prems(2) by (intro Cons.IH[OF r]) simp
  then show ?case using storeValue_other[OF s, of name] Cons.prems(2) a by simp
qed

lemma firstVals_lookup:
  assumes "firstVals dF options row vals iv0 = Inr iv" "distinct (map fst vals)"
    and "(name, v) \<in> set vals" "dictatedJSON options name = None"
  shows "iv name = storeString iv0 name v name"
  using assms
proof (induction vals arbitrary: iv0)
  case Nil
  then show ?case by simp
next
  case (Cons a vals)
  obtain nm val where a: "a = (nm, val)" by (cases a)
  obtain iv1 where s: "storeValue dF options row iv0 nm val = Inr iv1"
    and r: "firstVals dF options row vals iv1 = Inr iv"
    using Cons.prems(1) a by (auto split: sum.splits)
  show ?case
  proof (cases "(name, v) = a")
    case True
    then have eq: "nm = name" "val = v" using a by auto
    have "name \<notin> set (map fst vals)" using Cons.prems(2) a eq by simp
    then have "iv name = iv1 name" using firstVals_other[OF r] by simp
    moreover have "iv1 = storeString iv0 name v"
      using s eq storeValue_no_override[OF Cons.prems(4)] by simp
    ultimately show ?thesis by simp
  next
    case False
    then have mem: "(name, v) \<in> set vals" using Cons.prems(3) by auto
    then have ne: "name \<noteq> nm" using Cons.prems(2) a by (auto simp: rev_image_eqI)
    have "iv name = storeString iv1 name v name"
      using Cons.prems(2,4) mem by (intro Cons.IH[OF r]) simp_all
    moreover have "iv1 name = iv0 name" using storeValue_other[OF s] ne by simp
    ultimately show ?thesis by (cases v) auto
  qed
qed

lemma laterVals_other:
  assumes "laterVals dF options known row vals iv0 = Inr iv" "name \<notin> set (map fst vals)"
  shows "iv name = iv0 name"
  using assms
proof (induction vals arbitrary: iv0)
  case Nil
  then show ?case by simp
next
  case (Cons a vals)
  obtain nm val where a: "a = (nm, val)" by (cases a)
  show ?case
  proof (cases "map_of known nm = None")
    case True
    then have r: "laterVals dF options known row vals iv0 = Inr iv"
      using Cons.prems(1) a by (auto split: if_splits)
    show ?thesis using Cons.prems(2) by (intro Cons.IH[OF r]) simp
  next
    case False
    then obtain iv1 where s: "storeValue dF options row iv0 nm val = Inr iv1"
      and r: "laterVals dF options known row vals iv1 = Inr iv"
      using Cons.prems(1) a by (auto split: sum.splits)
    have "iv name = iv1 name" using Cons.prems(2) by (intro Cons.IH[OF r]) simp
    then show ?thesis using storeValue_other[OF s, of name] Cons.prems(2) a by simp
  qed
qed

lemma laterVals_lookup:
  assumes "laterVals dF options known row vals iv0 = Inr iv" "distinct (map fst vals)"
    and "(name, v) \<in> set vals" "dictatedJSON options name = None" "map_of known name \<noteq> None"
  shows "iv name = storeString iv0 name v name"
  using assms
proof (induction vals arbitrary: iv0)
  case Nil
  then show ?case by simp
next
  case (Cons a vals)
  obtain nm val where a: "a = (nm, val)" by (cases a)
  show ?case
  proof (cases "(name, v) = a")
    case True
    then have eq: "nm = name" "val = v" using a by auto
    then obtain iv1 where s: "storeValue dF options row iv0 name v = Inr iv1"
      and r: "laterVals dF options known row vals iv1 = Inr iv"
      using Cons.prems(1,5) a by (auto split: sum.splits)
    have "name \<notin> set (map fst vals)" using Cons.prems(2) a eq by simp
    then have "iv name = iv1 name" using laterVals_other[OF r] by simp
    moreover have "iv1 = storeString iv0 name v"
      using s storeValue_no_override[OF Cons.prems(4)] by simp
    ultimately show ?thesis by simp
  next
    case False
    then have mem: "(name, v) \<in> set vals" using Cons.prems(3) by auto
    then have ne: "name \<noteq> nm" using Cons.prems(2) a by (auto simp: rev_image_eqI)
    show ?thesis
    proof (cases "map_of known nm = None")
      case True
      then have r: "laterVals dF options known row vals iv0 = Inr iv"
        using Cons.prems(1) a by (auto split: if_splits)
      show ?thesis using Cons.prems(2,4,5) mem by (intro Cons.IH[OF r]) simp_all
    next
      case False
      then obtain iv1 where s: "storeValue dF options row iv0 nm val = Inr iv1"
        and r: "laterVals dF options known row vals iv1 = Inr iv"
        using Cons.prems(1) a by (auto split: sum.splits)
      have "iv name = storeString iv1 name v name"
        using Cons.prems(2,4,5) mem by (intro Cons.IH[OF r]) simp_all
      moreover have "iv1 name = iv0 name" using storeValue_other[OF s] ne by simp
      ultimately show ?thesis by (cases v) auto
    qed
  qed
qed

subsection \<open>The series of the first record\<close>

lemma firstVals_at:
  assumes "firstVals dF options row vals iv0 = Inr iv" "distinct (map fst vals)"
    and "(name, v) \<in> set vals"
  shows "\<exists>iv1 iv2. storeValue dF options row iv1 name v = Inr iv2 \<and> iv name = iv2 name"
  using assms
proof (induction vals arbitrary: iv0)
  case Nil
  then show ?case by simp
next
  case (Cons a vals)
  obtain nm val where a: "a = (nm, val)" by (cases a)
  obtain iv1 where s: "storeValue dF options row iv0 nm val = Inr iv1"
    and r: "firstVals dF options row vals iv1 = Inr iv"
    using Cons.prems(1) a by (auto split: sum.splits)
  show ?case
  proof (cases "(name, v) = a")
    case True
    then have eq: "nm = name" "val = v" using a by auto
    have "name \<notin> set (map fst vals)" using Cons.prems(2) a eq by simp
    then have "iv name = iv1 name" using firstVals_other[OF r] by simp
    then show ?thesis using s eq by blast
  next
    case False
    then have mem: "(name, v) \<in> set vals" using Cons.prems(3) by auto
    show ?thesis using Cons.prems(2) mem by (intro Cons.IH[OF r]) simp_all
  qed
qed

lemma laterVals_at:
  assumes "laterVals dF options known row vals iv0 = Inr iv" "distinct (map fst vals)"
    and "(name, v) \<in> set vals" "map_of known name \<noteq> None"
  shows "\<exists>iv1 iv2. storeValue dF options row iv1 name v = Inr iv2 \<and> iv name = iv2 name"
  using assms
proof (induction vals arbitrary: iv0)
  case Nil
  then show ?case by simp
next
  case (Cons a vals)
  obtain nm val where a: "a = (nm, val)" by (cases a)
  show ?case
  proof (cases "(name, v) = a")
    case True
    then have eq: "nm = name" "val = v" using a by auto
    then obtain iv1 where s: "storeValue dF options row iv0 name v = Inr iv1"
      and r: "laterVals dF options known row vals iv1 = Inr iv"
      using Cons.prems(1,4) a by (auto split: sum.splits)
    have "name \<notin> set (map fst vals)" using Cons.prems(2) a eq by simp
    then have "iv name = iv1 name" using laterVals_other[OF r] by simp
    then show ?thesis using s by blast
  next
    case False
    then have mem: "(name, v) \<in> set vals" using Cons.prems(3) by auto
    obtain iv1 where r: "laterVals dF options known row vals iv1 = Inr iv"
      using Cons.prems(1) a by (cases "map_of known nm = None") (auto split: sum.splits if_splits)
    show ?thesis using Cons.prems(2,4) mem by (intro Cons.IH[OF r]) simp_all
  qed
qed

lemma fieldSeriess_Ok:
  assumes "fieldSeriess options init vals = Ok ss"
  shows "map Name ss = map fst vals
       \<and> list_all (\<lambda>s. Values s = replicate (case init of None \<Rightarrow> 0 | Some i \<Rightarrow> nat (Size i)) VNil) ss"
  using assms
proof (induction vals arbitrary: ss)
  case Nil
  then show ?case by simp
next
  case (Cons a vals)
  obtain nm val where a: "a = (nm, val)" by (cases a)
  obtain s ss' where s: "NewSeries (fieldKind options nm) nm init = Ok s"
    and r: "fieldSeriess options init vals = Ok ss'" and ss: "ss = s # ss'"
    using Cons.prems a by (auto split: result.splits)
  have "Name s = nm \<and> Values s = replicate (case init of None \<Rightarrow> 0 | Some i \<Rightarrow> nat (Size i)) VNil"
    using s by (auto simp: NewSeries_def split: option.splits if_splits)
  then show ?case using Cons.IH[OF r] ss a by simp
qed

lemma NewDataFrame_Ok:
  assumes "NewDataFrame ss = Ok df"
  shows "Series df = ss \<and> distinct (map Name ss) \<and> wellFormed df"
  using assms by (auto simp: NewDataFrame_def Let_def wellFormed_def split: if_splits)

lemma NewDataFrame_nil:
  assumes "NewDataFrame ss = Ok df" "list_all (\<lambda>s. Values s = replicate k VNil) ss"
  shows "nilFrom 0 df \<and> (k = 0 \<longrightarrow> n df = 0)"
proof -
  have S: "Series df = ss" using NewDataFrame_Ok[OF assms(1)] by simp
  have "n df = (case ss of [] \<Rightarrow> 0 | s # x \<Rightarrow> length (Values s))"
    using assms(1) by (auto simp: NewDataFrame_def Let_def split: if_splits)
  then have "k = 0 \<longrightarrow> n df = 0" using assms(2) by (cases ss) auto
  moreover have "nilFrom 0 df"
    using assms(2) S by (auto simp: nilFrom_def list_all_iff)
  ultimately show ?thesis by simp
qed

subsection \<open>One turn of the loop\<close>

lemma firstRow_Ok:
  assumes "firstRow dF options init vals st = (Ok (), st')" "Row st = 0"
  shows "\<exists>iv df. firstVals dF options 1 vals Map.empty = Inr iv \<and> Df st' = Some df
           \<and> loopInv init st' \<and> Row st' = 1 \<and> KnownFields st' = vals
           \<and> (\<forall>name\<in>set (map fst vals).
                 cell df name 0 = Some (case iv name of Some v \<Rightarrow> v | None \<Rightarrow> VNil))"
proof -
  let ?st1 = "st\<lparr>Row := Suc (Row st), KnownFields := vals\<rparr>"
  from assms(1) obtain ss df0 iv df2 where
    ss: "fieldSeriess options init vals = Ok ss"
    and df0: "NewDataFrame ss = Ok df0"
    and iv: "firstVals dF options (Suc (Row st)) vals Map.empty = Inr iv"
    and up0: "UpdateRow (Row st) iv (if init = None then Append df0 else df0) = Some df2"
    and st': "st' = ?st1\<lparr>Df := Some df2\<rparr>"
    by (auto simp: firstRow_def Let_def split: result.splits sum.splits option.splits)
  define df1 where "df1 = (if init = None then Append df0 else df0)"
  define k where "k = (case init of None \<Rightarrow> 0 | Some i \<Rightarrow> nat (Size i))"
  have r0: "Row st = 0" by fact
  have up: "UpdateRow 0 iv df1 = Some df2" using up0 r0 by (simp add: df1_def)
  have names0: "Names df0 = map fst vals" and dist: "distinct (Names df0)" and wf0: "wellFormed df0"
    using fieldSeriess_Ok[OF ss] NewDataFrame_Ok[OF df0] by (simp_all add: Names_def)
  have all: "list_all (\<lambda>s. Values s = replicate k VNil) ss"
    using fieldSeriess_Ok[OF ss] by (simp add: k_def)
  have nil0: "nilFrom 0 df0" and n0: "k = 0 \<longrightarrow> n df0 = 0"
    using NewDataFrame_nil[OF df0 all] by simp_all
  have wf1: "wellFormed df1" using wf0 by (simp add: df1_def wellFormed_Append)
  have names1: "Names df1 = map fst vals" using names0 by (simp add: df1_def)
  have nil1: "nilFrom 0 df1" using nil0 by (simp add: df1_def nilFrom_Append)
  have n1: "init = None \<longrightarrow> n df1 = 1" using n0 by (simp add: df1_def k_def)
  have wf2: "wellFormed df2" using wellFormed_UpdateRow[OF up wf1] .
  have names2: "Names df2 = map fst vals" using Names_UpdateRow[OF up] names1 by simp
  have nil2: "nilFrom 1 df2" using nilFrom_UpdateRow[OF up nil1 wf1] by simp
  have n2: "n df2 = n df1" "0 < n df1" using n_UpdateRow[OF up] by simp_all
  have inv: "loopInv init st'"
    using wf2 names2 dist names0 nil2 n1 n2 r0 by (simp add: loopInv_def st')
  have cells: "cell df2 name 0 = Some (case iv name of Some v \<Rightarrow> v | None \<Rightarrow> VNil)"
    if "name \<in> set (map fst vals)" for name
  proof -
    have mem: "name \<in> set (Names df1)" using that names1 by simp
    have "cell df1 name 0 = Some VNil"
      using nilFrom_cell[OF nil1 wf1 mem, of 0] n2 by simp
    then show ?thesis
      using cell_UpdateRow[OF up wf1 mem, of 0] by (simp split: option.splits)
  qed
  have "firstVals dF options 1 vals Map.empty = Inr iv" using iv r0 by simp
  moreover have "Df st' = Some df2" "Row st' = 1" "KnownFields st' = vals"
    using r0 by (simp_all add: st')
  ultimately show ?thesis using inv cells by blast
qed

lemma laterRow_Ok:
  assumes "laterRow dF options init vals st = (Ok (), st')" "loopInv init st" "Df st = Some df"
  shows "\<exists>iv df'. laterVals dF options (KnownFields st) (Suc (Row st)) vals Map.empty = Inr iv
           \<and> Df st' = Some df' \<and> loopInv init st' \<and> Row st' = Suc (Row st)
           \<and> KnownFields st' = KnownFields st \<and> Names df' = Names df
           \<and> (\<forall>name\<in>set (Names df).
                 cell df' name (Row st) = Some (case iv name of Some v \<Rightarrow> v | None \<Rightarrow> VNil)
               \<and> (\<forall>r<Row st. cell df' name r = cell df name r))"
proof -
  let ?st1 = "st\<lparr>Row := Suc (Row st)\<rparr>"
  from assms(1,3) obtain iv df2 where
    iv: "laterVals dF options (KnownFields st) (Suc (Row st)) vals Map.empty = Inr iv"
    and up0: "UpdateRow (Row st) iv (if init = None then Append df else df) = Some df2"
    and st': "st' = ?st1\<lparr>Df := Some df2\<rparr>"
    by (auto simp: laterRow_def Let_def split: sum.splits option.splits)
  define df1 where "df1 = (if init = None then Append df else df)"
  have up: "UpdateRow (Row st) iv df1 = Some df2" using up0 by (simp add: df1_def)
  have wf0: "wellFormed df" and names0: "Names df = map fst (KnownFields st)"
    and dist: "distinct (Names df)" and nil0: "nilFrom (Row st) df"
    and n0: "init = None \<longrightarrow> n df = Row st" and pos: "0 < Row st"
    using assms(2,3) by (auto simp: loopInv_def split: if_splits)
  have wf1: "wellFormed df1" using wf0 by (simp add: df1_def wellFormed_Append)
  have names1: "Names df1 = Names df" by (simp add: df1_def)
  have nil1: "nilFrom (Row st) df1" using nil0 by (simp add: df1_def nilFrom_Append)
  have wf2: "wellFormed df2" using wellFormed_UpdateRow[OF up wf1] .
  have names2: "Names df2 = Names df" using Names_UpdateRow[OF up] names1 by simp
  have nil2: "nilFrom (Suc (Row st)) df2" using nilFrom_UpdateRow[OF up nil1 wf1] .
  have n2: "n df2 = n df1" "Row st < n df1" using n_UpdateRow[OF up] by simp_all
  have n1: "init = None \<longrightarrow> n df1 = Suc (Row st)" using n0 by (simp add: df1_def)
  have inv: "loopInv init st'"
    using wf2 names2 names0 dist nil2 n1 n2 by (simp add: loopInv_def st')
  have cells: "cell df2 name (Row st) = Some (case iv name of Some v \<Rightarrow> v | None \<Rightarrow> VNil)
               \<and> (\<forall>r<Row st. cell df2 name r = cell df name r)"
    if nm: "name \<in> set (Names df)" for name
  proof -
    have mem: "name \<in> set (Names df1)" using nm names1 by simp
    have "cell df1 name (Row st) = Some VNil"
      using nilFrom_cell[OF nil1 wf1 mem, of "Row st"] n2 by simp
    then have a: "cell df2 name (Row st) = Some (case iv name of Some v \<Rightarrow> v | None \<Rightarrow> VNil)"
      using cell_UpdateRow[OF up wf1 mem, of "Row st"] by (simp split: option.splits)
    have b: "cell df2 name r = cell df name r" if "r < Row st" for r
    proof -
      have "cell df2 name r = cell df1 name r"
        using cell_UpdateRow[OF up wf1 mem, of r] that by simp
      also have "\<dots> = cell df name r"
      proof (cases "init = None")
        case True
        then show ?thesis
          using cell_Append[OF wf0 nm, of r] that n0 by (simp add: df1_def)
      next
        case False
        then have "df1 = df" by (auto simp: df1_def)
        then show ?thesis by simp
      qed
      finally show ?thesis .
    qed
    show ?thesis using a b by simp
  qed
  have "Df st' = Some df2" "Row st' = Suc (Row st)" "KnownFields st' = KnownFields st"
    by (simp_all add: st')
  then show ?thesis using iv inv cells names2 by blast
qed

subsection \<open>The loop after the first record\<close>

lemma jsonLoop_Cons:
  "jsonLoop dF ctx options init t (Inr vals # recs) st = (Ok (), st') \<Longrightarrow>
   ctx t = None \<and> (\<exists>st1. (if Row st = 0 then firstRow dF options init vals st
                           else laterRow dF options init vals st) = (Ok (), st1)
                   \<and> jsonLoop dF ctx options init (Suc t) recs st1 = (Ok (), st'))"
  by (auto split: option.splits prod.splits result.splits if_splits)

lemma jsonLoop_Ok_Inr:
  "jsonLoop dF ctx options init t (rcd # recs) st = (Ok (), st') \<Longrightarrow> \<exists>vals. rcd = Inr vals"
  by (cases rcd) (auto split: option.splits)

lemma jsonLoop_later:
  assumes "jsonLoop dF ctx options init t recs st = (Ok (), st')" "loopInv init st" "Df st = Some df"
  shows "loopInv init st' \<and> KnownFields st' = KnownFields st \<and> Row st' = Row st + length recs
       \<and> (\<exists>df'. Df st' = Some df' \<and> Names df' = Names df
             \<and> (\<forall>name\<in>set (Names df). \<forall>r<Row st. cell df' name r = cell df name r))"
  using assms
proof (induction recs arbitrary: st df t)
  case Nil
  then show ?case by (auto split: option.splits)
next
  case (Cons rcd recs)
  obtain vals where rcd: "rcd = Inr vals" using jsonLoop_Ok_Inr[OF Cons.prems(1)] by blast
  have pos: "0 < Row st" using Cons.prems(2) by (auto simp: loopInv_def split: option.splits)
  obtain st1 where step: "laterRow dF options init vals st = (Ok (), st1)"
    and rest: "jsonLoop dF ctx options init (Suc t) recs st1 = (Ok (), st')"
    using jsonLoop_Cons[OF Cons.prems(1)[unfolded rcd]] pos by auto
  obtain df1 where df1: "Df st1 = Some df1" and inv1: "loopInv init st1"
    and row1: "Row st1 = Suc (Row st)" and known1: "KnownFields st1 = KnownFields st"
    and names1: "Names df1 = Names df"
    and keep1: "\<forall>name\<in>set (Names df). \<forall>r<Row st. cell df1 name r = cell df name r"
    using laterRow_Ok[OF step Cons.prems(2,3)] by blast
  from Cons.IH[OF rest inv1 df1] obtain df' where
    inv': "loopInv init st'" and known': "KnownFields st' = KnownFields st1"
    and row': "Row st' = Row st1 + length recs" and df': "Df st' = Some df'"
    and names': "Names df' = Names df1"
    and keep': "\<forall>name\<in>set (Names df1). \<forall>r<Row st1. cell df' name r = cell df1 name r"
    by blast
  have "\<forall>name\<in>set (Names df). \<forall>r<Row st. cell df' name r = cell df name r"
    using keep1 keep' names1 row1 by auto
  then show ?case using inv' known' known1 row' row1 df' names' names1 by auto
qed

lemma stored_value:
  "(case storeString Map.empty name v name of Some x \<Rightarrow> x | None \<Rightarrow> VNil) =
     (case v of
        JString s \<Rightarrow> VString s
      | JNumber s \<Rightarrow> VString s
      | JBool b \<Rightarrow> VString (if b then ''1'' else ''0'')
      | JNull \<Rightarrow> VNil
      | JArray \<Rightarrow> VNil)"
  by (cases v) auto

lemma jsonLoop_cell:
  assumes "jsonLoop dF ctx options init t recs st = (Ok (), st')" "loopInv init st"
    and "Df st = Some df" "Df st' = Some df'"
    and "j < length recs" "recs ! j = Inr vals" "(name, v) \<in> set vals" "distinct (map fst vals)"
    and "dictatedJSON options name = None" "name \<in> set (Names df)"
  shows "cell df' name (Row st + j) =
     Some (case v of
             JString s \<Rightarrow> VString s
           | JNumber s \<Rightarrow> VString s
           | JBool b \<Rightarrow> VString (if b then ''1'' else ''0'')
           | JNull \<Rightarrow> VNil
           | JArray \<Rightarrow> VNil)"
  using assms
proof (induction recs arbitrary: st df t j)
  case Nil
  then show ?case by simp
next
  case (Cons rcd recs)
  obtain vals1 where rcd: "rcd = Inr vals1" using jsonLoop_Ok_Inr[OF Cons.prems(1)] by blast
  have pos: "0 < Row st" using Cons.prems(2) by (auto simp: loopInv_def split: option.splits)
  have names: "Names df = map fst (KnownFields st)"
    using Cons.prems(2,3) by (auto simp: loopInv_def)
  obtain st1 where step: "laterRow dF options init vals1 st = (Ok (), st1)"
    and rest: "jsonLoop dF ctx options init (Suc t) recs st1 = (Ok (), st')"
    using jsonLoop_Cons[OF Cons.prems(1)[unfolded rcd]] pos by auto
  obtain iv df1 where iv: "laterVals dF options (KnownFields st) (Suc (Row st)) vals1 Map.empty = Inr iv"
    and df1: "Df st1 = Some df1" and inv1: "loopInv init st1"
    and row1: "Row st1 = Suc (Row st)" and names1: "Names df1 = Names df"
    and here: "\<forall>name\<in>set (Names df).
                 cell df1 name (Row st) = Some (case iv name of Some v \<Rightarrow> v | None \<Rightarrow> VNil)"
    using laterRow_Ok[OF step Cons.prems(2,3)] by blast
  show ?case
  proof (cases j)
    case 0
    then have v1: "vals1 = vals" using Cons.prems(6) rcd by simp
    have known: "map_of (KnownFields st) name \<noteq> None"
      using Cons.prems(10) names by (simp add: map_of_eq_None_iff)
    have "iv name = storeString Map.empty name v name"
      using laterVals_lookup[OF iv[unfolded v1] Cons.prems(8,7,9) known] .
    then have "cell df1 name (Row st) =
       Some (case storeString Map.empty name v name of Some x \<Rightarrow> x | None \<Rightarrow> VNil)"
      using here Cons.prems(10) by simp
    moreover have "cell df' name (Row st) = cell df1 name (Row st)"
      using jsonLoop_later[OF rest inv1 df1] Cons.prems(4,10) names1 row1 by auto
    ultimately show ?thesis using 0 by (simp only: stored_value add_0_right)
  next
    case (Suc j')
    have "cell df' name (Row st1 + j') =
     Some (case v of
             JString s \<Rightarrow> VString s
           | JNumber s \<Rightarrow> VString s
           | JBool b \<Rightarrow> VString (if b then ''1'' else ''0'')
           | JNull \<Rightarrow> VNil
           | JArray \<Rightarrow> VNil)"
      using Cons.prems(4-10) Suc names1 by (intro Cons.IH[OF rest inv1 df1]) simp_all
    then show ?thesis using row1 Suc by simp
  qed
qed

subsection \<open>The whole call\<close>

lemma jsonLoop_start:
  assumes "jsonLoop dF ctx options init t recs \<lparr>Row = 0, Df = None, KnownFields = []\<rparr> = (Ok (), st)"
    and "Df st = Some df"
  shows "\<exists>vals0 rest st1. recs = Inr vals0 # rest \<and> ctx t = None
        \<and> firstRow dF options init vals0 \<lparr>Row = 0, Df = None, KnownFields = []\<rparr> = (Ok (), st1)
        \<and> jsonLoop dF ctx options init (Suc t) rest st1 = (Ok (), st)"
proof (cases recs)
  case Nil
  then show ?thesis using assms by (auto split: option.splits)
next
  case (Cons rcd rest)
  obtain vals0 where rcd: "rcd = Inr vals0"
    using jsonLoop_Ok_Inr assms(1) Cons by blast
  show ?thesis
    using jsonLoop_Cons[OF assms(1)[unfolded Cons rcd]] Cons rcd by auto
qed

lemma LoadFromJSON_Ok:
  assumes "LoadFromJSON dF ctx r options = Ok df"
  shows "\<exists>init t vals0 rest st1 st df1.
           prepass ctx r options = Ok (init, t) \<and> Records r = Inr vals0 # rest \<and> ctx t = None
         \<and> firstRow dF options init vals0 \<lparr>Row = 0, Df = None, KnownFields = []\<rparr> = (Ok (), st1)
         \<and> jsonLoop dF ctx options init (Suc t) rest st1 = (Ok (), st)
         \<and> Df st = Some df1 \<and> df = ReorderColumns (sort (Names df1)) df1"
proof -
  from assms obtain init t st df1 where
    p: "prepass ctx r options = Ok (init, t)"
    and l: "jsonLoop dF ctx options init t (Records r) \<lparr>Row = 0, Df = None, KnownFields = []\<rparr> = (Ok (), st)"
    and d: "Df st = Some df1" and df: "df = ReorderColumns (sort (Names df1)) df1"
    by (auto simp: LoadFromJSON_def split: result.splits prod.splits option.splits)
  from jsonLoop_start[OF l d] p d df show ?thesis by blast
qed

lemma LoadFromJSON_table:
  assumes "LoadFromJSON dF ctx r options = Ok df"
  shows "\<exists>init t vals0 rest st1 st df0 df1.
           prepass ctx r options = Ok (init, t) \<and> Records r = Inr vals0 # rest
         \<and> Df st1 = Some df0 \<and> loopInv init st1 \<and> Row st1 = 1 \<and> KnownFields st1 = vals0
         \<and> firstRow dF options init vals0 \<lparr>Row = 0, Df = None, KnownFields = []\<rparr> = (Ok (), st1)
         \<and> jsonLoop dF ctx options init (Suc t) rest st1 = (Ok (), st)
         \<and> Df st = Some df1 \<and> Names df1 = map fst vals0 \<and> distinct (map fst vals0)
         \<and> Names df = sort (map fst vals0)
         \<and> (\<forall>name r. cell df name r = (if name \<in> set (map fst vals0) then cell df1 name r else None))"
proof -
  let ?st0 = "\<lparr>Row = 0, Df = None, KnownFields = []\<rparr>"
  from LoadFromJSON_Ok[OF assms] obtain init t vals0 rest st1 st df1 where
    p: "prepass ctx r options = Ok (init, t)" and recs: "Records r = Inr vals0 # rest"
    and f: "firstRow dF options init vals0 ?st0 = (Ok (), st1)"
    and l: "jsonLoop dF ctx options init (Suc t) rest st1 = (Ok (), st)"
    and d: "Df st = Some df1" and df: "df = ReorderColumns (sort (Names df1)) df1"
    by blast
  from firstRow_Ok[OF f] obtain df0 where
    df0: "Df st1 = Some df0" and inv1: "loopInv init st1" and row1: "Row st1 = 1"
    and known1: "KnownFields st1 = vals0"
    by auto
  have names0: "Names df0 = map fst vals0" and dist: "distinct (Names df0)"
    using inv1 df0 known1 by (auto simp: loopInv_def)
  have names1: "Names df1 = Names df0"
    using jsonLoop_later[OF l inv1 df0] d by auto
  have "Names df = sort (map fst vals0)"
    unfolding df Names_ReorderColumns_sort using names1 names0 by simp
  moreover have "cell df name r = (if name \<in> set (map fst vals0) then cell df1 name r else None)" for name r
    unfolding df cell_ReorderColumns using names1 names0 by simp
  ultimately show ?thesis
    using p recs df0 inv1 row1 known1 f l d names1 names0 dist by (intro exI conjI allI) auto
qed

subsection \<open>Runs of the loop and their prefixes\<close>

lemma step_Row:
  "firstRow dF options init vals st = (Ok (), st') \<Longrightarrow> Row st' = Suc (Row st)"
  "laterRow dF options init vals st = (Ok (), st') \<Longrightarrow> Row st' = Suc (Row st)"
  by (auto simp: firstRow_def laterRow_def Let_def split: result.splits sum.splits option.splits)

lemma jsonLoop_Row:
  "jsonLoop dF ctx options init t recs st = (Ok (), st') \<Longrightarrow> Row st' = Row st + length recs"
proof (induction recs arbitrary: st t)
  case Nil
  then show ?case by (auto split: option.splits)
next
  case (Cons rcd recs)
  obtain vals where rcd: "rcd = Inr vals" using jsonLoop_Ok_Inr[OF Cons.prems] by blast
  obtain st1 where step: "(if Row st = 0 then firstRow dF options init vals st
                           else laterRow dF options init vals st) = (Ok (), st1)"
    and rest: "jsonLoop dF ctx options init (Suc t) recs st1 = (Ok (), st')"
    using jsonLoop_Cons[OF Cons.prems[unfolded rcd]] by auto
  have "Row st1 = Suc (Row st)" using step step_Row by (auto split: if_splits)
  then show ?case using Cons.IH[OF rest] by simp
qed

lemma jsonLoop_prefix:
  assumes "jsonLoop dF (\<lambda>t. None) options init t' (take i recs) st = (Ok (), sti)"
    and "i \<le> length recs" "\<forall>j<i. ctx (t + j) = None"
  shows "jsonLoop dF ctx options init t recs st = jsonLoop dF ctx options init (t + i) (drop i recs) sti"
  using assms
proof (induction i arbitrary: recs st t t')
  case 0
  then show ?case by simp
next
  case (Suc i)
  then obtain rcd rest where recs: "recs = rcd # rest" by (cases recs) auto
  have run: "jsonLoop dF (\<lambda>t. None) options init t' (rcd # take i rest) st = (Ok (), sti)"
    using Suc.prems(1) recs by simp
  obtain vals where rcd: "rcd = Inr vals" using jsonLoop_Ok_Inr[OF run] by blast
  obtain st1 where step: "(if Row st = 0 then firstRow dF options init vals st
                           else laterRow dF options init vals st) = (Ok (), st1)"
    and rest: "jsonLoop dF (\<lambda>t. None) options init (Suc t') (take i rest) st1 = (Ok (), sti)"
    using jsonLoop_Cons[OF run[unfolded rcd]] by auto
  have c0: "ctx t = None" using Suc.prems(3) by (metis add.right_neutral zero_less_Suc)
  have cs: "\<forall>j<i. ctx (Suc t + j) = None"
    using Suc.prems(3) by (metis Suc_less_eq add_Suc_shift)
  have "jsonLoop dF ctx options init t recs st = jsonLoop dF ctx options init (Suc t) rest st1"
    using c0 step by (simp add: recs rcd)
  also have "\<dots> = jsonLoop dF ctx options init (Suc t + i) (drop i rest) sti"
    using Suc.prems(2) recs cs by (intro Suc.IH[OF rest]) simp_all
  finally show ?case by (simp add: recs)
qed

lemma jsonLoop_cancelled:
  assumes "ctx t = Some err"
  shows "jsonLoop dF ctx options init t recs st = (Err (CtxErr err), st)"
  using assms by (cases recs) simp_all

lemma jsonLoop_state:
  assumes "jsonLoop dF ctx options init t recs \<lparr>Row = 0, Df = None, KnownFields = []\<rparr> = (Ok (), st)"
  shows "Row st = length recs
       \<and> (case Df st of
             None \<Rightarrow> recs = []
           | Some df \<Rightarrow> recs \<noteq> [] \<and> loopInv init st \<and> (\<exists>vals0. hd recs = Inr vals0 \<and> KnownFields st = vals0))"
proof (cases recs)
  case Nil
  then show ?thesis using assms by (auto split: option.splits)
next
  case (Cons rcd rest)
  let ?st0 = "\<lparr>Row = 0, Df = None, KnownFields = []\<rparr>"
  obtain vals0 where rcd: "rcd = Inr vals0"
    using jsonLoop_Ok_Inr assms Cons by blast
  obtain st1 where f: "firstRow dF options init vals0 ?st0 = (Ok (), st1)"
    and l: "jsonLoop dF ctx options init (Suc t) rest st1 = (Ok (), st)"
    using jsonLoop_Cons[OF assms[unfolded Cons rcd]] by auto
  from firstRow_Ok[OF f] obtain df0 where
    df0: "Df st1 = Some df0" and inv1: "loopInv init st1" and known1: "KnownFields st1 = vals0"
    by auto
  from jsonLoop_later[OF l inv1 df0] have "loopInv init st" "KnownFields st = vals0" "\<exists>df. Df st = Some df"
    using known1 by auto
  then show ?thesis using jsonLoop_Row[OF assms] Cons rcd by auto
qed

subsection \<open>The counting pass\<close>

lemma countRows_cancelled:
  assumes "c \<le> length toks" "\<forall>j<c. ctx (t + j) = None \<and> \<not> isl (toks ! j)" "ctx (t + c) = Some err"
  shows "countRows ctx t toks tokenCount sz = Err (CtxErr err)"
  using assms
proof (induction toks arbitrary: c t tokenCount sz)
  case Nil
  then show ?case by simp
next
  case (Cons tok toks)
  show ?case
  proof (cases c)
    case 0
    then show ?thesis using Cons.prems(3) by simp
  next
    case (Suc c')
    have c0: "ctx t = None" and t0: "\<not> isl tok"
      using Cons.prems(2) Suc by (metis add.right_neutral zero_less_Suc nth_Cons_0)+
    have cs: "\<forall>j<c'. ctx (Suc t + j) = None \<and> \<not> isl (toks ! j)"
      using Cons.prems(2) Suc by (metis Suc_less_eq add_Suc_shift nth_Cons_Suc)
    have ce: "ctx (Suc t + c') = Some err" using Cons.prems(3) Suc by simp
    have le: "c' \<le> length toks" using Cons.prems(1) Suc by simp
    have IH: "countRows ctx (Suc t) toks tc s = Err (CtxErr err)" for tc s
      using Cons.IH[OF le cs ce] .
    obtain tk where tk: "tok = Inr tk" using t0 by (cases tok) auto
    show ?thesis
      using c0 IH by (cases tk) (simp_all add: tk)
  qed
qed

subsection \<open>Unknown fields\<close>









subsection \<open>A run on two records\<close>

lemma LoadFromJSON_example:
  "LoadFromJSON (\<lambda>row name typ val. Inr None) (\<lambda>t. None)
      \<lparr>Tokens = [],
       Records = [Inr [(''b'', JBool True), (''a'', JNumber ''1.50'')],
                  Inr [(''a'', JNumber ''2e3''), (''b'', JBool False), (''c'', JString ''extra'')]]\<rparr>
      None
   = Ok \<lparr>Series = [\<lparr>Name = ''a'', Kind = KString, Values = [VString ''1.50'', VString ''2e3'']\<rparr>,
                   \<lparr>Name = ''b'', Kind = KString, Values = [VString ''1'', VString ''0'']\<rparr>],
         n = 2\<rparr>"
  by (simp add: LoadFromJSON_def prepass_def firstRow_def laterRow_def fieldKind_def dictatedJSON_def
      NewSeries_def NewDataFrame_def storeValue_def UpdateRow_def NRows_def Append_def strict_def
      ReorderColumns_def Names_def List.map_filter_simps)

section \<open>No rows\<close>

lemma LoadFromJSON_no_records:
  assumes "Records r = []" and "prepass ctx r options = Ok (init, t)" and "ctx t = None"
  shows "LoadFromJSON dictateForce ctx r options = Err ErrNoRows"
  using assms by (simp add: LoadFromJSON_def)

lemma LoadFromSQL_no_rows:
  assumes "queryContext ctx stmt options args = Some (Inr rows)"
    and "Scans rows = []" and "RowsError rows = None"
    and "ColumnTypes rows \<noteq> []" and "distinct (map CTName (ColumnTypes rows))"
    and "options = None"
  shows "\<exists>df. LoadFromSQL lib ctx stmt options args = Ok df \<and> NRows df = 0
        \<and> Names df = map CTName (ColumnTypes rows)"
proof -
  have ns: "\<exists>ss. newSeriess None None cols = Ok ss \<and> map Name ss = map CTName cols
        \<and> list_all (\<lambda>s. length (Values s) = 0) ss" for cols
    by (induction cols) (auto simp: NewSeries_def)
  then obtain ss where ss: "newSeriess None None (ColumnTypes rows) = Ok ss"
    "map Name ss = map CTName (ColumnTypes rows)" "list_all (\<lambda>s. length (Values s) = 0) ss"
    by blast
  have "NewDataFrame ss = Ok \<lparr>Series = ss, n = 0\<rparr>"
    using ss assms(5) by (cases ss) (auto simp: NewDataFrame_def Let_def)
  then show ?thesis
    using assms ss by (simp add: LoadFromSQL_def NRows_def Names_def)
qed

text \<open>
  C1, on the query path. A statement whose result has the one column \<open>id\<close> and no row:
  \<^verbatim>\<open>LoadFromSQL\<close> returns the table of that column with no row, and a nil error, where the
  claim has it return \<^verbatim>\<open>ErrNoRows\<close>. The table is made before the loop over the rows, so
  the test \<^verbatim>\<open>df == nil\<close> of line 345 never holds (\<open>LoadFromSQL_no_rows\<close> has it for every
  such result); the structured-record path, which makes its table at the first record,
  does return \<^verbatim>\<open>ErrNoRows\<close> (\<open>LoadFromJSON_no_records\<close>).
\<close>

theorem LoadFromSQL_no_rows_returns_table:
  "LoadFromSQL \<lparr>ParseFloat = (\<lambda>s. None), TimeParse = (\<lambda>l s. None)\<rparr> (\<lambda>t. None)
     (QueryContexter1 (\<lambda>ctx args. Inr \<lparr>ColumnTypes = [\<lparr>CTName = ''id'', DatabaseTypeName = ''INT8''\<rparr>],
         Scans = [], RowsError = None\<rparr>)) None []
   = Ok \<lparr>Series = [\<lparr>Name = ''id'', Kind = KInt64, Values = []\<rparr>], n = 0\<rparr>"
  by (simp add: LoadFromSQL_def queryContext_def NewSeries_def NewDataFrame_def columnKind_def
      dictatedSQL_def typeNameKind_def PostgreSQL_def MySQL_def)

section \<open>Cancellation\<close>

lemma newSeriess_empty:
  "newSeriess options None cols = Ok ss \<Longrightarrow> s \<in> set ss \<Longrightarrow> Values s = []"
proof (induction cols arbitrary: ss)
  case Nil
  then show ?case by simp
next
  case (Cons ct cts)
  then show ?case
    by (auto simp: NewSeries_def split: result.splits)
qed

lemma NewDataFrame_empty:
  assumes "NewDataFrame ss = Ok df" "\<forall>s\<in>set ss. Values s = []"
  shows "n df = 0"
  using assms by (cases ss) (auto simp: NewDataFrame_def Let_def split: if_splits)

lemma sqlLoop_appended:
  "sqlLoop lib options database None cols scans row df = Ok (row', df')
   \<Longrightarrow> n df' = n df + length scans"
proof (induction scans arbitrary: row df)
  case Nil
  then show ?case by simp
next
  case (Cons scan scans)
  then show ?case
    by (auto split: sum.splits option.splits dest!: n_UpdateRow)
qed

lemma LoadFromSQL_takes_every_row:
  assumes "LoadFromSQL lib ctx stmt options args = Ok df"
    and "queryContext ctx stmt options args = Some (Inr rows)"
    and "case options of None \<Rightarrow> True | Some opt \<Rightarrow> KnownRowCount opt = None"
  shows "NRows df = length (Scans rows)"
proof -
  define database where "database = (case options of None \<Rightarrow> 0 | Some opt \<Rightarrow> Database opt)"
  have init: "(case options of None \<Rightarrow> None
              | Some opt \<Rightarrow> (case KnownRowCount opt of None \<Rightarrow> None | Some k \<Rightarrow> Some \<lparr>Size = k\<rparr>))
             = None"
    using assms(3) by (cases options) auto
  from assms(1) have "\<exists>ss df0 row.
      newSeriess options None (ColumnTypes rows) = Ok ss
    \<and> NewDataFrame ss = Ok df0
    \<and> sqlLoop lib options database None (ColumnTypes rows) (Scans rows) 0 df0 = Ok (row, df)"
    unfolding LoadFromSQL_def init assms(2) database_def[symmetric]
    by (auto simp: Let_def split: if_splits option.splits result.splits)
  then obtain ss df0 row where
    ss: "newSeriess options None (ColumnTypes rows) = Ok ss"
    and df0: "NewDataFrame ss = Ok df0"
    and loop: "sqlLoop lib options database None (ColumnTypes rows) (Scans rows) 0 df0 = Ok (row, df)"
    by blast
  have "n df0 = 0"
    using NewDataFrame_empty[OF df0] newSeriess_empty[OF ss] by blast
  then show ?thesis using sqlLoop_appended[OF loop] by (simp add: NRows_def)
qed

text \<open>
  C2, on the structured-record path. With the large-dataset option, the counting pass
  checks the context before reading each token: when the context first reports an error
  at the check before token \<open>c\<close> (the tokens before it read without error), the call
  returns that error. The loop over the records checks the context before decoding each
  record: when the first \<open>i\<close> records are taken in without error and the context first
  reports an error at the check before record \<open>i\<close>, the call returns that error, and the
  loop ends in the state reached after these \<open>i\<close> records: its row counter is \<open>i\<close> and
  every row of its table from index \<open>i\<close> on is nil. The query path makes no check of its
  own: \<^verbatim>\<open>LoadFromSQL\<close> gives the context to \<^verbatim>\<open>QueryContext\<close> and nothing else, so two contexts
  for which the statement answers alike give the same result; and whatever the context
  reports, when \<^verbatim>\<open>QueryContext\<close> has returned a cursor and the call returns a table, no
  known row count given, that table has one row for every row the cursor yielded.
\<close>

theorem LoadFromJSON_cancellation:
  "(options = Some opt \<and> LargeDataSet opt \<and> c \<le> length (Tokens r)
      \<and> (\<forall>j<c. ctx j = None \<and> \<not> isl (Tokens r ! j)) \<and> ctx c = Some err
    \<longrightarrow> LoadFromJSON dF ctx r options = Err (CtxErr err))
   \<and> (prepass ctx r options = Ok (init, t0) \<and> i \<le> length (Records r)
      \<and> jsonLoop dF (\<lambda>t. None) options init 0 (take i (Records r))
           \<lparr>Row = 0, Df = None, KnownFields = []\<rparr> = (Ok (), sti)
      \<and> (\<forall>j<i. ctx (t0 + j) = None) \<and> ctx (t0 + i) = Some err
    \<longrightarrow> LoadFromJSON dF ctx r options = Err (CtxErr err)
      \<and> jsonLoop dF ctx options init t0 (Records r) \<lparr>Row = 0, Df = None, KnownFields = []\<rparr>
          = (Err (CtxErr err), sti)
      \<and> Row sti = i
      \<and> (case Df sti of None \<Rightarrow> i = 0 | Some df \<Rightarrow> nilFrom i df))
   \<and> (queryContext ctx stmt soptions args = queryContext ctx' stmt soptions args
    \<longrightarrow> LoadFromSQL lib ctx stmt soptions args = LoadFromSQL lib ctx' stmt soptions args)
   \<and> (queryContext ctx stmt soptions args = Some (Inr rows)
      \<and> LoadFromSQL lib ctx stmt soptions args = Ok df
      \<and> (case soptions of None \<Rightarrow> True | Some sopt \<Rightarrow> KnownRowCount sopt = None)
    \<longrightarrow> NRows df = length (Scans rows))"
proof (intro conjI impI)
  assume "queryContext ctx stmt soptions args = Some (Inr rows)
      \<and> LoadFromSQL lib ctx stmt soptions args = Ok df
      \<and> (case soptions of None \<Rightarrow> True | Some sopt \<Rightarrow> KnownRowCount sopt = None)"
  then show "NRows df = length (Scans rows)"
    using LoadFromSQL_takes_every_row by blast
next
  assume q: "queryContext ctx stmt soptions args = queryContext ctx' stmt soptions args"
  show "LoadFromSQL lib ctx stmt soptions args = LoadFromSQL lib ctx' stmt soptions args"
    unfolding LoadFromSQL_def q by (rule refl)
next
  assume h: "options = Some opt \<and> LargeDataSet opt \<and> c \<le> length (Tokens r)
      \<and> (\<forall>j<c. ctx j = None \<and> \<not> isl (Tokens r ! j)) \<and> ctx c = Some err"
  have "countRows ctx 0 (Tokens r) 0 0 = Err (CtxErr err)"
    using h by (intro countRows_cancelled[where c = c]) simp_all
  then show "LoadFromJSON dF ctx r options = Err (CtxErr err)"
    using h by (simp add: LoadFromJSON_def prepass_def)
next
  let ?st0 = "\<lparr>Row = 0, Df = None, KnownFields = []\<rparr>"
  assume h: "prepass ctx r options = Ok (init, t0) \<and> i \<le> length (Records r)
      \<and> jsonLoop dF (\<lambda>t. None) options init 0 (take i (Records r)) ?st0 = (Ok (), sti)
      \<and> (\<forall>j<i. ctx (t0 + j) = None) \<and> ctx (t0 + i) = Some err"
  then have run: "jsonLoop dF (\<lambda>t. None) options init 0 (take i (Records r)) ?st0 = (Ok (), sti)"
    and le: "i \<le> length (Records r)" and none: "\<forall>j<i. ctx (t0 + j) = None"
    and some: "ctx (t0 + i) = Some err"
    by simp_all
  have "jsonLoop dF ctx options init t0 (Records r) ?st0
        = jsonLoop dF ctx options init (t0 + i) (drop i (Records r)) sti"
    using jsonLoop_prefix[OF run le none] .
  then show loop: "jsonLoop dF ctx options init t0 (Records r) ?st0 = (Err (CtxErr err), sti)"
    using jsonLoop_cancelled[of ctx "t0 + i" err, OF some] by simp
  show "LoadFromJSON dF ctx r options = Err (CtxErr err)"
    using h loop by (simp add: LoadFromJSON_def)
  have st: "Row sti = length (take i (Records r))
       \<and> (case Df sti of
             None \<Rightarrow> take i (Records r) = []
           | Some df \<Rightarrow> take i (Records r) \<noteq> [] \<and> loopInv init sti
               \<and> (\<exists>vals0. hd (take i (Records r)) = Inr vals0 \<and> KnownFields sti = vals0))"
    using jsonLoop_state[OF run] .
  then show row: "Row sti = i" using le by simp
  show "case Df sti of None \<Rightarrow> i = 0 | Some df \<Rightarrow> nilFrom i df"
  proof (cases "Df sti")
    case None
    then have "take i (Records r) = []" using st by simp
    then show ?thesis using None le by (cases i) auto
  next
    case (Some df)
    then have "loopInv init sti" using st by simp
    then show ?thesis using Some row by (simp add: loopInv_def)
  qed
qed

theorem LoadFromJSON_cancellation_witness:
  "LoadFromJSON (\<lambda>row name typ val. Inr None)
      (\<lambda>t. if 2 \<le> t then Some ''context canceled'' else None)
      \<lparr>Tokens = [Inr (Delim ''{''), Inr OtherToken, Inr OtherToken, Inr (Delim ''}'')],
       Records = [Inr [(''a'', JNumber ''1'')]]\<rparr>
      (Some \<lparr>LargeDataSet = True, DictateDataTypeJ = [], ErrorOnUnknownFields = False\<rparr>)
     = Err (CtxErr ''context canceled'')
   \<and> LoadFromJSON (\<lambda>row name typ val. Inr None)
      (\<lambda>t. if 1 \<le> t then Some ''context canceled'' else None)
      \<lparr>Tokens = [], Records = [Inr [(''a'', JNumber ''1'')], Inr [(''a'', JNumber ''2'')]]\<rparr> None
     = Err (CtxErr ''context canceled'')
   \<and> jsonLoop (\<lambda>row name typ val. Inr None)
      (\<lambda>t. if 1 \<le> t then Some ''context canceled'' else None) None None 0
      [Inr [(''a'', JNumber ''1'')], Inr [(''a'', JNumber ''2'')]]
      \<lparr>Row = 0, Df = None, KnownFields = []\<rparr>
     = (Err (CtxErr ''context canceled''),
        \<lparr>Row = 1,
         Df = Some \<lparr>Series = [\<lparr>Name = ''a'', Kind = KString, Values = [VString ''1'']\<rparr>], n = 1\<rparr>,
         KnownFields = [(''a'', JNumber ''1'')]\<rparr>)
   \<and> LoadFromSQL \<lparr>ParseFloat = (\<lambda>s. None), TimeParse = (\<lambda>l s. None)\<rparr>
      (\<lambda>t. Some ''context canceled'')
      (QueryContexter3 (\<lambda>ctx query args. Inr \<lparr>ColumnTypes = [\<lparr>CTName = ''id'', DatabaseTypeName = ''INT8''\<rparr>],
         Scans = [Inr [Some ''7'']], RowsError = None\<rparr>)) None []
     = LoadFromSQL \<lparr>ParseFloat = (\<lambda>s. None), TimeParse = (\<lambda>l s. None)\<rparr> (\<lambda>t. None)
      (QueryContexter3 (\<lambda>ctx query args. Inr \<lparr>ColumnTypes = [\<lparr>CTName = ''id'', DatabaseTypeName = ''INT8''\<rparr>],
         Scans = [Inr [Some ''7'']], RowsError = None\<rparr>)) None []
   \<and> LoadFromSQL \<lparr>ParseFloat = (\<lambda>s. None), TimeParse = (\<lambda>l s. None)\<rparr>
      (\<lambda>t. Some ''context canceled'')
      (QueryContexter3 (\<lambda>ctx query args. Inr \<lparr>ColumnTypes = [\<lparr>CTName = ''id'', DatabaseTypeName = ''INT8''\<rparr>],
         Scans = [Inr [Some ''7''], Inr [Some ''8'']], RowsError = None\<rparr>)) None []
     = Ok \<lparr>Series = [\<lparr>Name = ''id'', Kind = KInt64, Values = [VInt64 7, VInt64 8]\<rparr>], n = 2\<rparr>
   \<and> NRows \<lparr>Series = [\<lparr>Name = ''id'', Kind = KInt64, Values = [VInt64 7, VInt64 8]\<rparr>], n = 2\<rparr> = 2"
proof -
  let ?lib = "\<lparr>ParseFloat = (\<lambda>s. None), TimeParse = (\<lambda>l s. None)\<rparr>"
  let ?rows2 = "\<lparr>ColumnTypes = [\<lparr>CTName = ''id'', DatabaseTypeName = ''INT8''\<rparr>],
         Scans = [Inr [Some ''7''], Inr [Some ''8'']], RowsError = None\<rparr>"
  let ?stmt2 = "QueryContexter3 (\<lambda>ctx query args. Inr ?rows2)"
  let ?df2 = "\<lparr>Series = [\<lparr>Name = ''id'', Kind = KInt64, Values = [VInt64 7, VInt64 8]\<rparr>], n = 2\<rparr>"
  have l2: "LoadFromSQL ?lib (\<lambda>t. Some ''context canceled'') ?stmt2 None [] = Ok ?df2"
    by (simp add: LoadFromSQL_def queryContext_def NewSeries_def NewDataFrame_def columnKind_def
      dictatedSQL_def typeNameKind_def PostgreSQL_def MySQL_def rowData_def forceSQL_def
      forceColType_def forceInt_def ParseInt_def isDigit_def UpdateRow_def NRows_def Append_def)
  have n2: "NRows ?df2 = 2"
    using LoadFromJSON_cancellation[where ctx = "\<lambda>t. Some ''context canceled''" and stmt = ?stmt2
        and soptions = None and args = "[]" and rows = ?rows2 and df = ?df2 and lib = ?lib,
        THEN conjunct2, THEN conjunct2, THEN conjunct2] l2
    by (simp add: queryContext_def)
  let ?dF = "\<lambda>(row :: nat) (name :: string) (typ :: dictated) (val :: jval). Inr None :: error + val option"
  let ?c2 = "\<lambda>t :: nat. if 2 \<le> t then Some ''context canceled'' else None"
  let ?stmt = "QueryContexter3 (\<lambda>ctx query args. Inr \<lparr>ColumnTypes = [\<lparr>CTName = ''id'', DatabaseTypeName = ''INT8''\<rparr>],
         Scans = [Inr [Some ''7'']], RowsError = None\<rparr>)"
  have s: "LoadFromSQL \<lparr>ParseFloat = (\<lambda>s. None), TimeParse = (\<lambda>l s. None)\<rparr>
      (\<lambda>t. Some ''context canceled'') ?stmt None []
     = LoadFromSQL \<lparr>ParseFloat = (\<lambda>s. None), TimeParse = (\<lambda>l s. None)\<rparr> (\<lambda>t. None) ?stmt None []"
    using LoadFromJSON_cancellation[where ctx = "\<lambda>t. Some ''context canceled''" and ctx' = "\<lambda>t. None"
        and stmt = ?stmt and soptions = None and args = "[]", THEN conjunct2, THEN conjunct2]
    by (simp add: queryContext_def)
  let ?c1 = "\<lambda>t :: nat. if 1 \<le> t then Some ''context canceled'' else None"
  let ?o = "\<lparr>LargeDataSet = True, DictateDataTypeJ = [], ErrorOnUnknownFields = False\<rparr>"
  let ?r2 = "\<lparr>Tokens = [Inr (Delim ''{''), Inr OtherToken, Inr OtherToken, Inr (Delim ''}'')],
       Records = [Inr [(''a'', JNumber ''1'')]]\<rparr>"
  let ?r1 = "\<lparr>Tokens = [], Records = [Inr [(''a'', JNumber ''1'')], Inr [(''a'', JNumber ''2'')]]\<rparr>"
  let ?st0 = "\<lparr>Row = 0, Df = None, KnownFields = []\<rparr>"
  let ?sti = "\<lparr>Row = 1,
         Df = Some \<lparr>Series = [\<lparr>Name = ''a'', Kind = KString, Values = [VString ''1'']\<rparr>], n = 1\<rparr>,
         KnownFields = [(''a'', JNumber ''1'')]\<rparr>"
  have tok: "\<forall>j<2. ?c2 j = None \<and> \<not> isl (Tokens ?r2 ! j)"
    by (simp add: less_Suc_eq numeral_2_eq_2)
  have a: "LoadFromJSON ?dF ?c2 ?r2 (Some ?o) = Err (CtxErr ''context canceled'')"
    using LoadFromJSON_cancellation[where options = "Some ?o" and opt = ?o and c = 2 and r = ?r2
        and ctx = ?c2 and err = "''context canceled''" and dF = ?dF, THEN conjunct1] tok
    by simp
  have p: "prepass ?c1 ?r1 None = Ok (None, 0)" by (simp add: prepass_def)
  have run: "jsonLoop ?dF (\<lambda>t. None) None None 0 (take 1 (Records ?r1)) ?st0 = (Ok (), ?sti)"
    by (simp add: firstRow_def fieldKind_def dictatedJSON_def NewSeries_def NewDataFrame_def
        storeValue_def UpdateRow_def NRows_def Append_def)
  note t = LoadFromJSON_cancellation[where options = None and r = ?r1 and ctx = ?c1 and init = None
        and ?t0.0 = 0 and i = 1 and dF = ?dF and sti = ?sti and err = "''context canceled''",
        THEN conjunct2]
  have b: "LoadFromJSON ?dF ?c1 ?r1 None = Err (CtxErr ''context canceled'')
         \<and> jsonLoop ?dF ?c1 None None 0 (Records ?r1) ?st0 = (Err (CtxErr ''context canceled''), ?sti)"
    using t p run by simp
  show ?thesis using a b s l2 n2 by simp
qed

text \<open>
  The claim as stated fails on the query path: \<^verbatim>\<open>LoadFromSQL\<close> hands the context to
  \<^verbatim>\<open>QueryContext\<close> and never calls \<^verbatim>\<open>ctx.Err()\<close> itself. With a context that is cancelled
  from the start and a statement whose rows do not look at it, the row is taken in and the
  table is returned.
\<close>

theorem LoadFromSQL_cancelled_counterexample:
  "LoadFromSQL \<lparr>ParseFloat = (\<lambda>s. None), TimeParse = (\<lambda>l s. None)\<rparr>
     (\<lambda>t. Some ''context canceled'')
     (QueryContexter1 (\<lambda>ctx args. Inr \<lparr>ColumnTypes = [\<lparr>CTName = ''id'', DatabaseTypeName = ''INT8''\<rparr>],
         Scans = [Inr [Some ''7'']], RowsError = None\<rparr>)) None []
   = Ok \<lparr>Series = [\<lparr>Name = ''id'', Kind = KInt64, Values = [VInt64 7]\<rparr>], n = 1\<rparr>"
  by (simp add: LoadFromSQL_def queryContext_def NewSeries_def NewDataFrame_def columnKind_def
      dictatedSQL_def typeNameKind_def PostgreSQL_def MySQL_def rowData_def forceSQL_def
      forceColType_def forceInt_def ParseInt_def isDigit_def UpdateRow_def NRows_def Append_def)

section \<open>An override that carries a converter\<close>

lemma rowVals_other:
  assumes "rowVals lib options database row cs iv0 = Inr iv" "name \<notin> set (map (CTName \<circ> fst) cs)"
  shows "iv name = iv0 name"
  using assms
proof (induction cs arbitrary: iv0)
  case Nil
  then show ?case by simp
next
  case (Cons c cs)
  obtain ct elem where c: "c = (ct, elem)" by (cases c)
  show ?case
  proof (cases elem)
    case None
    then have r: "rowVals lib options database row cs (iv0(CTName ct \<mapsto> VNil)) = Inr iv"
      using Cons.prems(1) c by simp
    have "iv name = (iv0(CTName ct \<mapsto> VNil)) name"
      using Cons.prems(2) by (intro Cons.IH[OF r]) simp
    then show ?thesis using Cons.prems c by simp
  next
    case (Some val)
    then obtain v where v: "forceSQL lib options database row ct val = Inr v"
      and r: "rowVals lib options database row cs (iv0(CTName ct \<mapsto> v)) = Inr iv"
      using Cons.prems c by (auto split: sum.splits)
    have "iv name = (iv0(CTName ct \<mapsto> v)) name"
      using Cons.prems(2) by (intro Cons.IH[OF r]) simp
    then show ?thesis using Cons.prems c by simp
  qed
qed

lemma rowVals_lookup:
  assumes "rowVals lib options database row cs iv0 = Inr iv"
    and "distinct (map (CTName \<circ> fst) cs)" and "(ct, elem) \<in> set cs"
  shows "case elem of
           None \<Rightarrow> iv (CTName ct) = Some VNil
         | Some val \<Rightarrow> \<exists>v. forceSQL lib options database row ct val = Inr v \<and> iv (CTName ct) = Some v"
  using assms
proof (induction cs arbitrary: iv0)
  case Nil
  then show ?case by simp
next
  case (Cons c cs)
  obtain ct' elem' where c: "c = (ct', elem')" by (cases c)
  show ?case
  proof (cases "(ct, elem) = c")
    case True
    then have eq: "ct' = ct" "elem' = elem" using c by auto
    have notin: "CTName ct \<notin> set (map (CTName \<circ> fst) cs)"
      using Cons.prems(2) c eq by simp
    show ?thesis
    proof (cases elem)
      case None
      then have "rowVals lib options database row cs (iv0(CTName ct \<mapsto> VNil)) = Inr iv"
        using Cons.prems(1) c eq by simp
      from rowVals_other[OF this notin] show ?thesis using None by simp
    next
      case (Some val)
      then obtain v where v: "forceSQL lib options database row ct val = Inr v"
        and r: "rowVals lib options database row cs (iv0(CTName ct \<mapsto> v)) = Inr iv"
        using Cons.prems(1) c eq by (auto split: sum.splits)
      from rowVals_other[OF r notin] show ?thesis using Some v by simp
    qed
  next
    case False
    then have mem: "(ct, elem) \<in> set cs" using Cons.prems(3) by auto
    have d: "distinct (map (CTName \<circ> fst) cs)" using Cons.prems(2) by (simp add: comp_def)
    obtain iv1 where "rowVals lib options database row cs iv1 = Inr iv"
      using Cons.prems(1) c by (cases elem') (auto split: sum.splits)
    from Cons.IH[OF this d mem] show ?thesis .
  qed
qed

lemma storeValue_converter:
  assumes "dictatedJSON options name = Some (DConverter T f)"
  shows "storeValue (dictateForceSpec lib database) options row iv name v =
     (case rawLexical v of
        None \<Rightarrow> Inr (iv(name \<mapsto> VNil))
      | Some s \<Rightarrow>
          (case f s of
             Inl err \<Rightarrow> Inl (CantForce s ToGeneric (row - 1) name)
           | Inr cv \<Rightarrow> Inr (iv(name \<mapsto> cv))))"
  using assms
  by (simp add: storeValue_def dictateForceSpec_def forceDictated_def split: option.splits sum.splits)

lemma stored_converter:
  assumes "dictatedJSON options name = Some (DConverter T f)"
    and "storeValue (dictateForceSpec lib database) options row iv1 name v = Inr iv2"
  shows "case rawLexical v of
           None \<Rightarrow> iv2 name = Some VNil
         | Some s \<Rightarrow> \<exists>cv. f s = Inr cv \<and> iv2 name = Some cv"
  using assms(2) unfolding storeValue_converter[OF assms(1)]
  by (auto split: option.splits sum.splits)

text \<open>
  C3. For a field whose override is a \<^verbatim>\<open>Converter\<close>: on both paths the series made for it
  is a Time series when the converter's \<^verbatim>\<open>ConcreteType\<close> is a \<^verbatim>\<open>time.Time\<close>, and a Generic
  series of the concrete type otherwise. In the query path every non-nil value of the
  field is given to the converter function: its result is the value handed to the table,
  its error the error "can't force string ... to generic data type"; a nil value is
  handed on as nil. In the structured-record path the value and the override are given
  to \<^verbatim>\<open>dictateForce\<close>, whose result is what is stored; with \<^verbatim>\<open>dictateForce\<close> as the spec
  has it (\<open>dictateForceSpec\<close>), every string, number and boolean of the field is given to
  the converter function in its raw lexical form: the converter's result is the value
  handed to the table, in the first record and in every later one, its error the
  coercion error for generic data; null (and a value of another kind, which has no
  lexical form and which the Raw Row of the spec does not hold) is handed on as nil and
  the converter is not called.
\<close>

theorem converter_override:
  "(dictatedSQL options (CTName ct) = Some (DConverter T f) \<longrightarrow>
       columnKind options ct = (case T of TTime \<Rightarrow> KTime | TNamed x \<Rightarrow> KGeneric T)
     \<and> forceSQL lib options database row ct val =
         (case f val of
            Inl err \<Rightarrow> Inl (CantForce val ToGeneric (row - 1) (CTName ct))
          | Inr cv \<Rightarrow> Inr cv)
     \<and> (rowVals lib options database row cs iv0 = Inr iv \<and> distinct (map (CTName \<circ> fst) cs)
          \<and> (ct, Some val) \<in> set cs
        \<longrightarrow> (\<exists>cv. f val = Inr cv \<and> iv (CTName ct) = Some cv))
     \<and> (rowVals lib options database row cs iv0 = Inr iv \<and> distinct (map (CTName \<circ> fst) cs)
          \<and> (ct, None) \<in> set cs
        \<longrightarrow> iv (CTName ct) = Some VNil))
   \<and> (dictatedJSON joptions name = Some (DConverter T f) \<longrightarrow>
       fieldKind joptions name = (case T of TTime \<Rightarrow> KTime | TNamed x \<Rightarrow> KGeneric T)
     \<and> storeValue dictateForce joptions jrow insertVals name jv =
         (case dictateForce jrow name (DConverter T f) jv of
            Inl err \<Rightarrow> Inl err
          | Inr None \<Rightarrow> Inr insertVals
          | Inr (Some v) \<Rightarrow> Inr (insertVals(name \<mapsto> v)))
     \<and> storeValue (dictateForceSpec lib database) joptions jrow insertVals name jv =
         (case rawLexical jv of
            None \<Rightarrow> Inr (insertVals(name \<mapsto> VNil))
          | Some s \<Rightarrow>
              (case f s of
                 Inl err \<Rightarrow> Inl (CantForce s ToGeneric (jrow - 1) name)
               | Inr cv \<Rightarrow> Inr (insertVals(name \<mapsto> cv))))
     \<and> (firstVals (dictateForceSpec lib database) joptions jrow vals jiv0 = Inr jiv
          \<and> distinct (map fst vals) \<and> (name, jv) \<in> set vals
        \<longrightarrow> (case rawLexical jv of
               None \<Rightarrow> jiv name = Some VNil
             | Some s \<Rightarrow> \<exists>cv. f s = Inr cv \<and> jiv name = Some cv))
     \<and> (laterVals (dictateForceSpec lib database) joptions known jrow vals jiv0 = Inr jiv
          \<and> distinct (map fst vals) \<and> (name, jv) \<in> set vals \<and> map_of known name \<noteq> None
        \<longrightarrow> (case rawLexical jv of
               None \<Rightarrow> jiv name = Some VNil
             | Some s \<Rightarrow> \<exists>cv. f s = Inr cv \<and> jiv name = Some cv)))"
proof (intro conjI impI)
  assume d: "dictatedSQL options (CTName ct) = Some (DConverter T f)"
  show "columnKind options ct = (case T of TTime \<Rightarrow> KTime | TNamed x \<Rightarrow> KGeneric T)"
    using d by (simp add: columnKind_def dictatedKindSQL_def)
  show f: "forceSQL lib options database row ct val =
         (case f val of
            Inl err \<Rightarrow> Inl (CantForce val ToGeneric (row - 1) (CTName ct))
          | Inr cv \<Rightarrow> Inr cv)"
    using d by (simp add: forceSQL_def forceDictated_def)
  {
    assume h: "rowVals lib options database row cs iv0 = Inr iv \<and> distinct (map (CTName \<circ> fst) cs)
          \<and> (ct, Some val) \<in> set cs"
    then have "\<exists>v. forceSQL lib options database row ct val = Inr v \<and> iv (CTName ct) = Some v"
      using rowVals_lookup[of lib options database row cs iv0 iv ct "Some val"] by simp
    then show "\<exists>cv. f val = Inr cv \<and> iv (CTName ct) = Some cv"
      unfolding f by (auto split: sum.splits)
  }
  {
    assume h: "rowVals lib options database row cs iv0 = Inr iv \<and> distinct (map (CTName \<circ> fst) cs)
          \<and> (ct, None) \<in> set cs"
    then show "iv (CTName ct) = Some VNil"
      using rowVals_lookup[of lib options database row cs iv0 iv ct None] by simp
  }
next
  assume d: "dictatedJSON joptions name = Some (DConverter T f)"
  show "fieldKind joptions name = (case T of TTime \<Rightarrow> KTime | TNamed x \<Rightarrow> KGeneric T)"
    using d by (simp add: fieldKind_def dictatedKindJSON_def)
  show "storeValue dictateForce joptions jrow insertVals name jv =
         (case dictateForce jrow name (DConverter T f) jv of
            Inl err \<Rightarrow> Inl err
          | Inr None \<Rightarrow> Inr insertVals
          | Inr (Some v) \<Rightarrow> Inr (insertVals(name \<mapsto> v)))"
    using d by (simp add: storeValue_def)
  show "storeValue (dictateForceSpec lib database) joptions jrow insertVals name jv =
         (case rawLexical jv of
            None \<Rightarrow> Inr (insertVals(name \<mapsto> VNil))
          | Some s \<Rightarrow>
              (case f s of
                 Inl err \<Rightarrow> Inl (CantForce s ToGeneric (jrow - 1) name)
               | Inr cv \<Rightarrow> Inr (insertVals(name \<mapsto> cv))))"
    using d by (rule storeValue_converter)
  {
    assume h: "firstVals (dictateForceSpec lib database) joptions jrow vals jiv0 = Inr jiv
          \<and> distinct (map fst vals) \<and> (name, jv) \<in> set vals"
    then obtain iv1 iv2 where
      s: "storeValue (dictateForceSpec lib database) joptions jrow iv1 name jv = Inr iv2"
      and e: "jiv name = iv2 name"
      using firstVals_at[of "dictateForceSpec lib database" joptions jrow vals jiv0 jiv name jv]
      by blast
    show "case rawLexical jv of
               None \<Rightarrow> jiv name = Some VNil
             | Some s \<Rightarrow> \<exists>cv. f s = Inr cv \<and> jiv name = Some cv"
      using stored_converter[OF d s] unfolding e .
  }
  {
    assume h: "laterVals (dictateForceSpec lib database) joptions known jrow vals jiv0 = Inr jiv
          \<and> distinct (map fst vals) \<and> (name, jv) \<in> set vals \<and> map_of known name \<noteq> None"
    then obtain iv1 iv2 where
      s: "storeValue (dictateForceSpec lib database) joptions jrow iv1 name jv = Inr iv2"
      and e: "jiv name = iv2 name"
      using laterVals_at[of "dictateForceSpec lib database" joptions known jrow vals jiv0 jiv name jv]
      by blast
    show "case rawLexical jv of
               None \<Rightarrow> jiv name = Some VNil
             | Some s \<Rightarrow> \<exists>cv. f s = Inr cv \<and> jiv name = Some cv"
      using stored_converter[OF d s] unfolding e .
  }
qed

theorem converter_override_witness:
  "columnKind
      (Some \<lparr>KnownRowCount = None,
             DictateDataType = [(''u'', DConverter (TNamed ''uuid'') (\<lambda>s. if s = [] then Inl ''empty'' else Inr (VOther s)))],
             Database = 0, Query = []\<rparr>)
      \<lparr>CTName = ''u'', DatabaseTypeName = ''VARCHAR''\<rparr> = KGeneric (TNamed ''uuid'')
   \<and> rowVals \<lparr>ParseFloat = (\<lambda>s. None), TimeParse = (\<lambda>l s. None)\<rparr>
      (Some \<lparr>KnownRowCount = None,
             DictateDataType = [(''u'', DConverter (TNamed ''uuid'') (\<lambda>s. if s = [] then Inl ''empty'' else Inr (VOther s)))],
             Database = 0, Query = []\<rparr>) 0 1
      [(\<lparr>CTName = ''u'', DatabaseTypeName = ''VARCHAR''\<rparr>, Some ''ab''),
       (\<lparr>CTName = ''w'', DatabaseTypeName = ''VARCHAR''\<rparr>, None)] Map.empty
      = Inr [''u'' \<mapsto> VOther ''ab'', ''w'' \<mapsto> VNil]
   \<and> fieldKind
      (Some \<lparr>LargeDataSet = False,
             DictateDataTypeJ = [(''u'', DConverter (TNamed ''uuid'') (\<lambda>s. if s = [] then Inl ''empty'' else Inr (VOther s)))],
             ErrorOnUnknownFields = False\<rparr>) ''u'' = KGeneric (TNamed ''uuid'')
   \<and> firstVals (dictateForceSpec \<lparr>ParseFloat = (\<lambda>s. None), TimeParse = (\<lambda>l s. None)\<rparr> 0)
      (Some \<lparr>LargeDataSet = False,
             DictateDataTypeJ = [(''u'', DConverter (TNamed ''uuid'') (\<lambda>s. if s = [] then Inl ''empty'' else Inr (VOther s)))],
             ErrorOnUnknownFields = False\<rparr>) 1
      [(''u'', JNumber ''12''), (''w'', JString ''x'')] Map.empty
      = Inr [''u'' \<mapsto> VOther ''12'', ''w'' \<mapsto> VString ''x'']
   \<and> laterVals (dictateForceSpec \<lparr>ParseFloat = (\<lambda>s. None), TimeParse = (\<lambda>l s. None)\<rparr> 0)
      (Some \<lparr>LargeDataSet = False,
             DictateDataTypeJ = [(''u'', DConverter (TNamed ''uuid'') (\<lambda>s. if s = [] then Inl ''empty'' else Inr (VOther s)))],
             ErrorOnUnknownFields = False\<rparr>)
      [(''u'', JNumber ''12''), (''w'', JString ''x'')] 2
      [(''u'', JNull)] Map.empty
      = Inr [''u'' \<mapsto> VNil]
   \<and> storeValue (dictateForceSpec \<lparr>ParseFloat = (\<lambda>s. None), TimeParse = (\<lambda>l s. None)\<rparr> 0)
      (Some \<lparr>LargeDataSet = False,
             DictateDataTypeJ = [(''u'', DConverter (TNamed ''uuid'') (\<lambda>s. if s = [] then Inl ''empty'' else Inr (VOther s)))],
             ErrorOnUnknownFields = False\<rparr>) 3 Map.empty ''u'' (JString [])
      = Inl (CantForce [] ToGeneric 2 ''u'')"
proof -
  let ?f = "\<lambda>s. if s = [] then Inl ''empty'' else Inr (VOther s)"
  let ?lib = "\<lparr>ParseFloat = (\<lambda>s. None), TimeParse = (\<lambda>l s. None)\<rparr>"
  let ?o = "Some \<lparr>KnownRowCount = None, DictateDataType = [(''u'', DConverter (TNamed ''uuid'') ?f)],
             Database = 0, Query = []\<rparr>"
  let ?jo = "Some \<lparr>LargeDataSet = False, DictateDataTypeJ = [(''u'', DConverter (TNamed ''uuid'') ?f)],
             ErrorOnUnknownFields = False\<rparr>"
  let ?u = "\<lparr>CTName = ''u'', DatabaseTypeName = ''VARCHAR''\<rparr>"
  let ?w = "\<lparr>CTName = ''w'', DatabaseTypeName = ''VARCHAR''\<rparr>"
  let ?cs = "[(?u, Some ''ab''), (?w, None)]"
  let ?iv = "[''u'' \<mapsto> VOther ''ab'', ''w'' \<mapsto> VNil]"
  have d: "dictatedSQL ?o (CTName ?u) = Some (DConverter (TNamed ''uuid'') ?f)"
    by (simp add: dictatedSQL_def)
  have dj: "dictatedJSON ?jo ''u'' = Some (DConverter (TNamed ''uuid'') ?f)"
    by (simp add: dictatedJSON_def)
  note t = converter_override[where options = ?o and ct = ?u and T = "TNamed ''uuid''" and f = ?f
      and joptions = ?jo and name = "''u''" and lib = ?lib and database = 0 and row = 1
      and val = "''ab''" and cs = ?cs and ?iv0.0 = Map.empty and iv = ?iv]
  have k: "columnKind ?o ?u = KGeneric (TNamed ''uuid'')"
    using t d by simp
  have kj: "fieldKind ?jo ''u'' = KGeneric (TNamed ''uuid'')"
    using t dj by simp
  have "forceSQL ?lib ?o 0 1 ?u ''ab'' = Inr (VOther ''ab'')"
    using t d by simp
  moreover have "forceSQL ?lib ?o 0 1 ?w x = Inr (VString x)" for x
    by (simp add: forceSQL_def dictatedSQL_def forceColType_def)
  ultimately have r: "rowVals ?lib ?o 0 1 ?cs Map.empty = Inr ?iv"
    by simp
  have sv: "storeValue (dictateForceSpec ?lib 0) ?jo jrow insertVals ''u'' jv =
         (case rawLexical jv of
            None \<Rightarrow> Inr (insertVals(''u'' \<mapsto> VNil))
          | Some s \<Rightarrow>
              (case ?f s of
                 Inl err \<Rightarrow> Inl (CantForce s ToGeneric (jrow - 1) ''u'')
               | Inr cv \<Rightarrow> Inr (insertVals(''u'' \<mapsto> cv))))" for jrow insertVals jv
    using converter_override[where joptions = ?jo and name = "''u''" and T = "TNamed ''uuid''"
        and f = ?f and lib = ?lib and database = 0 and jrow = jrow and insertVals = insertVals
        and jv = jv, THEN conjunct2, THEN mp, OF dj, THEN conjunct2, THEN conjunct2, THEN conjunct1]
    by simp
  have sw: "storeValue (dictateForceSpec ?lib 0) ?jo jrow insertVals ''w'' jv
      = Inr (storeString insertVals ''w'' jv)" for jrow insertVals jv
    by (simp add: storeValue_def dictatedJSON_def)
  have fv: "firstVals (dictateForceSpec ?lib 0) ?jo 1
      [(''u'', JNumber ''12''), (''w'', JString ''x'')] Map.empty
      = Inr [''u'' \<mapsto> VOther ''12'', ''w'' \<mapsto> VString ''x'']"
    by (simp add: sv sw rawLexical_def)
  have lv: "laterVals (dictateForceSpec ?lib 0) ?jo
      [(''u'', JNumber ''12''), (''w'', JString ''x'')] 2 [(''u'', JNull)] Map.empty
      = Inr [''u'' \<mapsto> VNil]"
    by (simp add: sv rawLexical_def)
  have er: "storeValue (dictateForceSpec ?lib 0) ?jo 3 Map.empty ''u'' (JString [])
      = Inl (CantForce [] ToGeneric 2 ''u'')"
    by (simp add: sv rawLexical_def)
  show ?thesis using k kj r fv lv er by blast
qed

text \<open>
  The claim as stated fails: a converter whose \<^verbatim>\<open>ConcreteType\<close> is a \<^verbatim>\<open>time.Time\<close> selects a
  Time series on both paths, not Generic storage.
\<close>

theorem converter_override_counterexample:
  "columnKind
      (Some \<lparr>KnownRowCount = None, DictateDataType = [(''t'', DConverter TTime (\<lambda>s. Inr (VString s)))],
             Database = 0, Query = []\<rparr>)
      \<lparr>CTName = ''t'', DatabaseTypeName = ''VARCHAR''\<rparr> = KTime
   \<and> fieldKind
      (Some \<lparr>LargeDataSet = False, DictateDataTypeJ = [(''t'', DConverter TTime (\<lambda>s. Inr (VString s)))],
             ErrorOnUnknownFields = False\<rparr>) ''t'' = KTime"
  by (simp add: columnKind_def dictatedSQL_def dictatedKindSQL_def fieldKind_def dictatedJSON_def
      dictatedKindJSON_def)

section \<open>The preallocated rows\<close>

declare removeExcess.simps [simp del]

lemma newSeriess_Values:
  "newSeriess options (Some i) cols = Ok ss \<Longrightarrow> s \<in> set ss \<Longrightarrow> length (Values s) = nat (Size i)"
proof (induction cols arbitrary: ss)
  case Nil
  then show ?case by simp
next
  case (Cons ct cts)
  then show ?case
    by (auto simp: NewSeries_def split: result.splits if_splits)
qed

lemma newSeriess_length:
  "newSeriess options init cols = Ok ss \<Longrightarrow> length ss = length cols"
  by (induction cols arbitrary: ss) (auto split: result.splits)

lemma NewDataFrame_n:
  assumes "NewDataFrame ss = Ok df" "ss \<noteq> []" "\<forall>s\<in>set ss. length (Values s) = k"
  shows "n df = k"
  using assms by (cases ss) (auto simp: NewDataFrame_def Let_def split: if_splits)

lemma UpdateRow_n: "UpdateRow r vals df = Some df' \<Longrightarrow> n df' = n df"
  by (auto simp: UpdateRow_def split: if_splits)

lemma sqlLoop_prealloc_n:
  "sqlLoop lib options database (Some i) cols scans row df = Ok (row', df') \<Longrightarrow> n df' = n df"
proof (induction scans arbitrary: row df)
  case Nil
  then show ?case by simp
next
  case (Cons scan scans)
  then show ?case
    by (auto split: sum.splits option.splits dest: UpdateRow_n)
qed

lemma removeExcess_0: "excess \<le> 0 \<Longrightarrow> removeExcess excess df = Ok df"
  by (subst removeExcess.simps) simp

lemma LoadFromSQL_keeps_preallocated_rows:
  assumes "LoadFromSQL lib ctx stmt (Some opt) args = Ok df" and "KnownRowCount opt = Some K"
  shows "NRows df = nat K"
proof -
  let ?i = "\<lparr>Size = K\<rparr>"
  from assms have "\<exists>(rows :: rows) ss df0 row df1.
      newSeriess (Some opt) (Some ?i) (ColumnTypes rows) = Ok ss
    \<and> ColumnTypes rows \<noteq> []
    \<and> NewDataFrame ss = Ok df0
    \<and> sqlLoop lib (Some opt) (Database opt) (Some ?i) (ColumnTypes rows) (Scans rows) 0 df0 = Ok (row, df1)
    \<and> removeExcess (K - int (NRows df1)) df1 = Ok df"
    by (auto simp: LoadFromSQL_def Let_def split: if_splits option.splits sum.splits result.splits)
      blast+
  then obtain rows :: rows and ss df0 row df1 where
    ss: "newSeriess (Some opt) (Some ?i) (ColumnTypes rows) = Ok ss"
    and cols: "ColumnTypes rows \<noteq> []"
    and df0: "NewDataFrame ss = Ok df0"
    and loop: "sqlLoop lib (Some opt) (Database opt) (Some ?i) (ColumnTypes rows) (Scans rows) 0 df0 = Ok (row, df1)"
    and fin: "removeExcess (K - int (NRows df1)) df1 = Ok df"
    by blast
  have "ss \<noteq> []" using newSeriess_length[OF ss] cols by auto
  moreover have "\<forall>s\<in>set ss. length (Values s) = nat K"
    using newSeriess_Values[OF ss] by simp
  ultimately have "n df0 = nat K" using NewDataFrame_n[OF df0] by blast
  then have n1: "n df1 = nat K" using sqlLoop_prealloc_n[OF loop] by simp
  have "0 \<le> K" using ss cols
    by (cases "ColumnTypes rows") (auto simp: NewSeries_def split: if_splits result.splits)
  then have "K - int (NRows df1) \<le> 0" using n1 by (simp add: NRows_def)
  then have "df = df1" using fin removeExcess_0 by simp
  then show ?thesis using n1 by (simp add: NRows_def)
qed

text \<open>
  C4. A known row count of 3 and a result of one row: \<^verbatim>\<open>LoadFromSQL\<close> returns a table of
  3 rows, the last two nil, where the claim has it return a table of 1 row. The series
  are made with 3 rows and the rows are updated in place, so \<^verbatim>\<open>df.NRows()\<close> is 3 after the
  loop, \<^verbatim>\<open>excess := init.Size - df.NRows()\<close> is 0 and no row is removed
  (\<open>LoadFromSQL_keeps_preallocated_rows\<close> has it for every call that returns a table).
\<close>

theorem LoadFromSQL_preallocated_not_trimmed:
  "LoadFromSQL \<lparr>ParseFloat = (\<lambda>s. None), TimeParse = (\<lambda>l s. None)\<rparr> (\<lambda>t. None)
     (QueryContexter1 (\<lambda>ctx args. Inr \<lparr>ColumnTypes = [\<lparr>CTName = ''id'', DatabaseTypeName = ''INT8''\<rparr>],
         Scans = [Inr [Some ''7'']], RowsError = None\<rparr>))
     (Some \<lparr>KnownRowCount = Some 3, DictateDataType = [], Database = 0, Query = []\<rparr>) []
   = Ok \<lparr>Series = [\<lparr>Name = ''id'', Kind = KInt64, Values = [VInt64 7, VNil, VNil]\<rparr>], n = 3\<rparr>"
  by (simp add: LoadFromSQL_def queryContext_def NewSeries_def NewDataFrame_def columnKind_def
      dictatedSQL_def typeNameKind_def PostgreSQL_def MySQL_def rowData_def forceSQL_def
      forceColType_def forceInt_def ParseInt_def isDigit_def UpdateRow_def NRows_def
      numeral_3_eq_3 removeExcess.simps)

section \<open>A statement of no supported kind\<close>

text \<open>
  C5. For a statement-like object that satisfies none of the four interfaces of the type
  switch, \<^verbatim>\<open>LoadFromSQL\<close> panics with the message that the object's type is not a valid
  Stmt; it returns no error value. The options are checked first: options whose
  \<^verbatim>\<open>Database\<close> is neither PostgreSQL nor MySQL make the call return the "invalid database"
  error before the statement is looked at.
\<close>

theorem LoadFromSQL_not_a_statement:
  "LoadFromSQL lib ctx (NotAStmt T) options args =
     (case options of
        None \<Rightarrow> Panic (''interface conversion: '' @ T @ '' is not a valid Stmt'')
      | Some opt \<Rightarrow>
          if Database opt = PostgreSQL \<or> Database opt = MySQL
          then Panic (''interface conversion: '' @ T @ '' is not a valid Stmt'')
          else Err InvalidDatabase)"
  by (simp add: LoadFromSQL_def queryContext_def split: option.splits)

text \<open>The claim as stated fails: the call does not return an error, it panics.\<close>

theorem LoadFromSQL_not_a_statement_counterexample:
  "LoadFromSQL \<lparr>ParseFloat = (\<lambda>s. None), TimeParse = (\<lambda>l s. None)\<rparr> (\<lambda>t. None)
     (NotAStmt ''int'') None []
   = Panic ''interface conversion: int is not a valid Stmt''"
  by (simp add: LoadFromSQL_def queryContext_def PostgreSQL_def MySQL_def)

section \<open>The coercion of a field stored as Int64\<close>

lemma ParseInt_bool_tokens:
  "ParseInt ''1'' = Some 1" "ParseInt ''0'' = Some 0"
  "ParseInt ''true'' = None" "ParseInt ''TRUE'' = None" "ParseInt ''True'' = None"
  "ParseInt ''false'' = None" "ParseInt ''FALSE'' = None" "ParseInt ''False'' = None"
  by (simp_all add: ParseInt_def isDigit_def)

lemma forceColType_BOOL:
  "forceColType lib database row fieldName ''BOOL'' val = forceBool row fieldName val"
  by (simp add: forceColType_def)

lemma forceColType_int:
  assumes "typeNameKind typ = KInt64" "typ \<noteq> ''BOOL''"
  shows "forceColType lib database row fieldName typ val = forceInt row fieldName val"
proof -
  have "typ \<in> set [''INT'', ''TINYINT'', ''INT2'', ''INT4'', ''INT8'', ''MEDIUMINT'', ''SMALLINT'', ''BIGINT'']"
    using assms unfolding typeNameKind_def by (simp split: if_splits)
  moreover have "typ \<notin> set [''VARCHAR'', ''TEXT'', ''NVARCHAR'', ''MEDIUMTEXT'', ''LONGTEXT'']"
    using assms unfolding typeNameKind_def by (simp split: if_splits)
  moreover have "typ \<notin> set [''FLOAT'', ''DOUBLE'', ''DECIMAL'', ''NUMERIC'', ''FLOAT4'', ''FLOAT8'']"
    using assms unfolding typeNameKind_def by (simp split: if_splits)
  ultimately show ?thesis
    unfolding forceColType_def by (simp only: if_True if_False)
qed

lemma forceBool_tokens:
  "forceBool row fieldName val =
     (if val \<in> set [''true'', ''TRUE'', ''True'', ''1''] then Inr (VInt64 1)
      else if val \<in> set [''false'', ''FALSE'', ''False'', ''0''] then Inr (VInt64 0)
      else Inl (CantForce val ToBool (row - 1) fieldName))"
  by (simp add: forceBool_def)

lemma dictatedKindSQL_Int64:
  "dictatedKindSQL d = KInt64 \<Longrightarrow> d = DInt64 \<or> d = DBool"
  by (cases d) (simp_all add: dictatedKindSQL_def split: gotype.splits)

lemma forceSQL_bool_declared:
  assumes "dictatedSQL options (CTName ct) = Some DBool
          \<or> dictatedSQL options (CTName ct) = None \<and> DatabaseTypeName ct = ''BOOL''"
  shows "forceSQL lib options database row ct val = forceBool row (CTName ct) val"
  using assms
proof
  assume "dictatedSQL options (CTName ct) = Some DBool"
  then show ?thesis by (simp add: forceSQL_def forceDictated_def)
next
  assume "dictatedSQL options (CTName ct) = None \<and> DatabaseTypeName ct = ''BOOL''"
  then show ?thesis by (simp add: forceSQL_def forceColType_BOOL)
qed

lemma forceSQL_int_declared:
  assumes "columnKind options ct = KInt64"
    and "dictatedSQL options (CTName ct) \<noteq> Some DBool"
    and "dictatedSQL options (CTName ct) = None \<longrightarrow> DatabaseTypeName ct \<noteq> ''BOOL''"
  shows "forceSQL lib options database row ct val = forceInt row (CTName ct) val"
proof (cases "dictatedSQL options (CTName ct)")
  case None
  then have "typeNameKind (DatabaseTypeName ct) = KInt64"
    using assms(1) by (simp add: columnKind_def)
  then show ?thesis
    using None assms(3) by (simp add: forceSQL_def forceColType_int)
next
  case (Some d)
  then have "dictatedKindSQL d = KInt64" using assms(1) by (simp add: columnKind_def)
  then have "d = DInt64" using dictatedKindSQL_Int64 Some assms(2) by blast
  then show ?thesis using Some by (simp add: forceSQL_def forceDictated_def)
qed

text \<open>
  C6. In the query path, for a column stored as Int64. When the override is a bool, or
  there is no override and the source type name is BOOL, the tokens true, TRUE, True and
  1 store 1, the tokens false, FALSE, False and 0 store 0, and every other token gives the
  error "can't force string ... to bool". Otherwise (the override is an int64, or there
  is none and the type name is of the integer family) the token is parsed as a decimal
  64-bit signed integer: 1 and 0 store 1 and 0, and a token that does not parse, the
  tokens true, TRUE, True, false, FALSE and False among them, gives the error "can't
  force string ... to Int".
\<close>

theorem forceSQL_Int64:
  assumes "columnKind options ct = KInt64"
  shows "(dictatedSQL options (CTName ct) = Some DBool
          \<or> dictatedSQL options (CTName ct) = None \<and> DatabaseTypeName ct = ''BOOL''
        \<longrightarrow> forceSQL lib options database row ct val =
             (if val \<in> set [''true'', ''TRUE'', ''True'', ''1''] then Inr (VInt64 1)
              else if val \<in> set [''false'', ''FALSE'', ''False'', ''0''] then Inr (VInt64 0)
              else Inl (CantForce val ToBool (row - 1) (CTName ct))))
    \<and> (dictatedSQL options (CTName ct) \<noteq> Some DBool
          \<and> (dictatedSQL options (CTName ct) = None \<longrightarrow> DatabaseTypeName ct \<noteq> ''BOOL'')
        \<longrightarrow> forceSQL lib options database row ct val =
             (case ParseInt val of
                None \<Rightarrow> Inl (CantForce val ToInt (row - 1) (CTName ct))
              | Some i \<Rightarrow> Inr (VInt64 i))
          \<and> (val = ''1'' \<longrightarrow> forceSQL lib options database row ct val = Inr (VInt64 1))
          \<and> (val = ''0'' \<longrightarrow> forceSQL lib options database row ct val = Inr (VInt64 0))
          \<and> (val \<in> set [''true'', ''TRUE'', ''True'', ''false'', ''FALSE'', ''False'']
              \<longrightarrow> forceSQL lib options database row ct val
                    = Inl (CantForce val ToInt (row - 1) (CTName ct))))"
proof (intro conjI impI)
  assume "dictatedSQL options (CTName ct) = Some DBool
          \<or> dictatedSQL options (CTName ct) = None \<and> DatabaseTypeName ct = ''BOOL''"
  then show "forceSQL lib options database row ct val =
             (if val \<in> set [''true'', ''TRUE'', ''True'', ''1''] then Inr (VInt64 1)
              else if val \<in> set [''false'', ''FALSE'', ''False'', ''0''] then Inr (VInt64 0)
              else Inl (CantForce val ToBool (row - 1) (CTName ct)))"
    by (simp only: forceSQL_bool_declared forceBool_tokens)
next
  assume nb: "dictatedSQL options (CTName ct) \<noteq> Some DBool
          \<and> (dictatedSQL options (CTName ct) = None \<longrightarrow> DatabaseTypeName ct \<noteq> ''BOOL'')"
  have int: "forceSQL lib options database row ct v = forceInt row (CTName ct) v" for v
    using assms nb by (intro forceSQL_int_declared) simp_all
  show "forceSQL lib options database row ct val =
             (case ParseInt val of
                None \<Rightarrow> Inl (CantForce val ToInt (row - 1) (CTName ct))
              | Some i \<Rightarrow> Inr (VInt64 i))"
    by (simp add: int forceInt_def)
  show "forceSQL lib options database row ct val = Inr (VInt64 1)" if "val = ''1''"
    unfolding that int forceInt_def by (simp add: ParseInt_bool_tokens)
  show "forceSQL lib options database row ct val = Inr (VInt64 0)" if "val = ''0''"
    unfolding that int forceInt_def by (simp add: ParseInt_bool_tokens)
  assume "val \<in> set [''true'', ''TRUE'', ''True'', ''false'', ''FALSE'', ''False'']"
  then have "ParseInt val = None"
    using ParseInt_bool_tokens by (elim disjE | simp only: set_simps insert_iff empty_iff)+
  then show "forceSQL lib options database row ct val = Inl (CantForce val ToInt (row - 1) (CTName ct))"
    unfolding int forceInt_def by simp
qed

theorem forceSQL_Int64_witness:
  "forceSQL \<lparr>ParseFloat = (\<lambda>s. None), TimeParse = (\<lambda>l s. None)\<rparr>
      (Some \<lparr>KnownRowCount = None, DictateDataType = [(''flag'', DBool)], Database = 0, Query = []\<rparr>)
      0 3 \<lparr>CTName = ''flag'', DatabaseTypeName = ''VARCHAR''\<rparr> ''TRUE'' = Inr (VInt64 1)
   \<and> forceSQL \<lparr>ParseFloat = (\<lambda>s. None), TimeParse = (\<lambda>l s. None)\<rparr> None 0 3
      \<lparr>CTName = ''b'', DatabaseTypeName = ''BOOL''\<rparr> ''yes'' = Inl (CantForce ''yes'' ToBool 2 ''b'')
   \<and> forceSQL \<lparr>ParseFloat = (\<lambda>s. None), TimeParse = (\<lambda>l s. None)\<rparr> None 0 3
      \<lparr>CTName = ''n'', DatabaseTypeName = ''BIGINT''\<rparr> ''1'' = Inr (VInt64 1)
   \<and> forceSQL \<lparr>ParseFloat = (\<lambda>s. None), TimeParse = (\<lambda>l s. None)\<rparr> None 0 3
      \<lparr>CTName = ''n'', DatabaseTypeName = ''BIGINT''\<rparr> ''False'' = Inl (CantForce ''False'' ToInt 2 ''n'')"
proof -
  let ?lib = "\<lparr>ParseFloat = (\<lambda>s. None), TimeParse = (\<lambda>l s. None)\<rparr>"
  let ?o = "Some \<lparr>KnownRowCount = None, DictateDataType = [(''flag'', DBool)], Database = 0, Query = []\<rparr>"
  let ?f = "\<lparr>CTName = ''flag'', DatabaseTypeName = ''VARCHAR''\<rparr>"
  let ?b = "\<lparr>CTName = ''b'', DatabaseTypeName = ''BOOL''\<rparr>"
  let ?n = "\<lparr>CTName = ''n'', DatabaseTypeName = ''BIGINT''\<rparr>"
  have kf: "columnKind ?o ?f = KInt64"
    by (simp add: columnKind_def dictatedSQL_def dictatedKindSQL_def)
  have kb: "columnKind None ?b = KInt64"
    by (simp add: columnKind_def dictatedSQL_def typeNameKind_def)
  have kn: "columnKind None ?n = KInt64"
    by (simp add: columnKind_def dictatedSQL_def typeNameKind_def)
  have 1: "forceSQL ?lib ?o 0 3 ?f ''TRUE'' = Inr (VInt64 1)"
    using forceSQL_Int64[OF kf, of ?lib 0 3 "''TRUE''"] by (simp add: dictatedSQL_def ParseInt_bool_tokens)
  have 2: "forceSQL ?lib None 0 3 ?b ''yes'' = Inl (CantForce ''yes'' ToBool 2 ''b'')"
    using forceSQL_Int64[OF kb, of ?lib 0 3 "''yes''"] by (simp add: dictatedSQL_def ParseInt_bool_tokens)
  have 3: "forceSQL ?lib None 0 3 ?n ''1'' = Inr (VInt64 1)"
    using forceSQL_Int64[OF kn, of ?lib 0 3 "''1''"] by (simp add: dictatedSQL_def ParseInt_bool_tokens)
  have 4: "forceSQL ?lib None 0 3 ?n ''False'' = Inl (CantForce ''False'' ToInt 2 ''n'')"
    using forceSQL_Int64[OF kn, of ?lib 0 3 "''False''"] by (simp add: dictatedSQL_def ParseInt_bool_tokens)
  show ?thesis using 1 2 3 4 by blast
qed

text \<open>
  The claim as stated fails: a column of type INT is stored as Int64 and the token true is
  an error there; a column of type BOOL is stored as Int64 and the token 2, which parses
  as an integer, is an error there, of target bool.
\<close>

theorem forceSQL_Int64_counterexample:
  "columnKind None \<lparr>CTName = ''n'', DatabaseTypeName = ''INT''\<rparr> = KInt64
   \<and> forceSQL \<lparr>ParseFloat = (\<lambda>s. None), TimeParse = (\<lambda>l s. None)\<rparr> None 0 1
        \<lparr>CTName = ''n'', DatabaseTypeName = ''INT''\<rparr> ''true''
      = Inl (CantForce ''true'' ToInt 0 ''n'')
   \<and> columnKind None \<lparr>CTName = ''b'', DatabaseTypeName = ''BOOL''\<rparr> = KInt64
   \<and> forceSQL \<lparr>ParseFloat = (\<lambda>s. None), TimeParse = (\<lambda>l s. None)\<rparr> None 0 1
        \<lparr>CTName = ''b'', DatabaseTypeName = ''BOOL''\<rparr> ''2''
      = Inl (CantForce ''2'' ToBool 0 ''b'')"
  by (simp add: columnKind_def dictatedSQL_def typeNameKind_def forceSQL_def forceColType_def
      forceInt_def forceBool_def ParseInt_def isDigit_def)

section \<open>The columns and the unknown fields\<close>





section \<open>The fields with no override\<close>

text \<open>
  C8. When \<^verbatim>\<open>LoadFromJSON\<close> returns a table, record \<open>i\<close> of the stream has the field
  \<open>name\<close> with the value \<open>v\<close>, the field has no override and is a column of the table:
  the cell of that column at row \<open>i\<close> is the string itself for a string, the literal text
  of the number for a number (a string, not a number), the string 1 for true and the
  string 0 for false; for null (and for an array) the cell stays nil. The series made
  for such a field is a String series.
\<close>

theorem LoadFromJSON_untyped_cells:
  assumes "LoadFromJSON dF ctx r options = Ok df"
    and "i < length (Records r)" and "Records r ! i = Inr vals"
    and "(name, v) \<in> set vals" and "distinct (map fst vals)"
    and "dictatedJSON options name = None" and "name \<in> set (Names df)"
  shows "cell df name i =
     Some (case v of
             JString s \<Rightarrow> VString s
           | JNumber s \<Rightarrow> VString s
           | JBool b \<Rightarrow> VString (if b then ''1'' else ''0'')
           | JNull \<Rightarrow> VNil
           | JArray \<Rightarrow> VNil)
     \<and> fieldKind options name = KString"
proof -
  let ?st0 = "\<lparr>Row = 0, Df = None, KnownFields = []\<rparr>"
  have kind: "fieldKind options name = KString"
    using assms(6) by (simp add: fieldKind_def)
  from LoadFromJSON_table[OF assms(1)] obtain init t vals0 rest st1 st df0 df1 where
    recs: "Records r = Inr vals0 # rest"
    and df0: "Df st1 = Some df0" and inv1: "loopInv init st1" and row1: "Row st1 = 1"
    and f: "firstRow dF options init vals0 ?st0 = (Ok (), st1)"
    and l: "jsonLoop dF ctx options init (Suc t) rest st1 = (Ok (), st)"
    and df1: "Df st = Some df1" and names1: "Names df1 = map fst vals0"
    and names: "Names df = sort (map fst vals0)"
    and cells: "\<forall>name r. cell df name r = (if name \<in> set (map fst vals0) then cell df1 name r else None)"
    by blast
  have known: "name \<in> set (map fst vals0)" using assms(7) names by simp
  have names0: "Names df0 = map fst vals0"
    using jsonLoop_later[OF l inv1 df0] df1 names1 by auto
  have "cell df1 name i =
     Some (case v of
             JString s \<Rightarrow> VString s
           | JNumber s \<Rightarrow> VString s
           | JBool b \<Rightarrow> VString (if b then ''1'' else ''0'')
           | JNull \<Rightarrow> VNil
           | JArray \<Rightarrow> VNil)"
  proof (cases i)
    case 0
    then have v0: "vals0 = vals" using assms(3) recs by simp
    from firstRow_Ok[OF f] df0 obtain iv where
      iv: "firstVals dF options 1 vals0 Map.empty = Inr iv"
      and c0: "\<forall>name\<in>set (map fst vals0).
                 cell df0 name 0 = Some (case iv name of Some v \<Rightarrow> v | None \<Rightarrow> VNil)"
      by auto
    have "iv name = storeString Map.empty name v name"
      using firstVals_lookup[OF iv[unfolded v0] assms(5,4,6)] .
    moreover have "cell df0 name 0 = Some (case iv name of Some v \<Rightarrow> v | None \<Rightarrow> VNil)"
      using c0 known by blast
    ultimately have "cell df0 name 0 =
        Some (case storeString Map.empty name v name of Some x \<Rightarrow> x | None \<Rightarrow> VNil)"
      by simp
    moreover have "cell df1 name 0 = cell df0 name 0"
      using jsonLoop_later[OF l inv1 df0] df1 names0 known row1 by auto
    ultimately show ?thesis using 0 by (simp only: stored_value)
  next
    case (Suc j)
    have j: "j < length rest" "rest ! j = Inr vals"
      using assms(2,3) recs Suc by simp_all
    have "name \<in> set (Names df0)" using known names0 by simp
    from jsonLoop_cell[OF l inv1 df0 df1 j assms(4,5,6) this]
    show ?thesis using row1 Suc by simp
  qed
  then show ?thesis using cells known kind by simp
qed

theorem LoadFromJSON_untyped_cells_witness:
  "LoadFromJSON (\<lambda>row name typ val. Inr None) (\<lambda>t. None)
      \<lparr>Tokens = [],
       Records = [Inr [(''b'', JBool True), (''a'', JNumber ''1.50'')],
                  Inr [(''a'', JNumber ''2e3''), (''b'', JBool False), (''c'', JString ''extra'')]]\<rparr>
      None
   = Ok \<lparr>Series = [\<lparr>Name = ''a'', Kind = KString, Values = [VString ''1.50'', VString ''2e3'']\<rparr>,
                   \<lparr>Name = ''b'', Kind = KString, Values = [VString ''1'', VString ''0'']\<rparr>],
         n = 2\<rparr>
   \<and> cell \<lparr>Series = [\<lparr>Name = ''a'', Kind = KString, Values = [VString ''1.50'', VString ''2e3'']\<rparr>,
                   \<lparr>Name = ''b'', Kind = KString, Values = [VString ''1'', VString ''0'']\<rparr>],
         n = 2\<rparr> ''b'' 1 = Some (VString ''0'')
   \<and> cell \<lparr>Series = [\<lparr>Name = ''a'', Kind = KString, Values = [VString ''1.50'', VString ''2e3'']\<rparr>,
                   \<lparr>Name = ''b'', Kind = KString, Values = [VString ''1'', VString ''0'']\<rparr>],
         n = 2\<rparr> ''a'' 0 = Some (VString ''1.50'')"
proof -
  let ?r = "\<lparr>Tokens = [],
       Records = [Inr [(''b'', JBool True), (''a'', JNumber ''1.50'')],
                  Inr [(''a'', JNumber ''2e3''), (''b'', JBool False), (''c'', JString ''extra'')]]\<rparr>"
  have 1: "cell \<lparr>Series = [\<lparr>Name = ''a'', Kind = KString, Values = [VString ''1.50'', VString ''2e3'']\<rparr>,
                   \<lparr>Name = ''b'', Kind = KString, Values = [VString ''1'', VString ''0'']\<rparr>],
         n = 2\<rparr> ''b'' 1 = Some (VString ''0'')"
    using LoadFromJSON_untyped_cells[OF LoadFromJSON_example, of 1
        "[(''a'', JNumber ''2e3''), (''b'', JBool False), (''c'', JString ''extra'')]" "''b''" "JBool False"]
    by (simp add: dictatedJSON_def Names_def)
  have 2: "cell \<lparr>Series = [\<lparr>Name = ''a'', Kind = KString, Values = [VString ''1.50'', VString ''2e3'']\<rparr>,
                   \<lparr>Name = ''b'', Kind = KString, Values = [VString ''1'', VString ''0'']\<rparr>],
         n = 2\<rparr> ''a'' 0 = Some (VString ''1.50'')"
    using LoadFromJSON_untyped_cells[OF LoadFromJSON_example, of 0
        "[(''b'', JBool True), (''a'', JNumber ''1.50'')]" "''a''" "JNumber ''1.50''"]
    by (simp add: dictatedJSON_def Names_def)
  show ?thesis using 1 2 LoadFromJSON_example by simp
qed

text \<open>
  The stored text of a number is not a canonical decimal form: it is the literal as the
  input has it. The literals 1.50 and 1.5 denote one number, and so do 2e3 and 2000; the
  loader stores four different strings for them, the exponent form 2e3 among them, where
  a canonical decimal form would give one string for each number.
\<close>

theorem LoadFromJSON_number_text_counterexample:
  "LoadFromJSON (\<lambda>row name typ val. Inr None) (\<lambda>t. None)
      \<lparr>Tokens = [],
       Records = [Inr [(''a'', JNumber ''1.50''), (''b'', JNumber ''2e3'')],
                  Inr [(''a'', JNumber ''1.5''), (''b'', JNumber ''2000'')]]\<rparr>
      None
   = Ok \<lparr>Series = [\<lparr>Name = ''a'', Kind = KString, Values = [VString ''1.50'', VString ''1.5'']\<rparr>,
                   \<lparr>Name = ''b'', Kind = KString, Values = [VString ''2e3'', VString ''2000'']\<rparr>],
         n = 2\<rparr>
   \<and> VString ''1.50'' \<noteq> VString ''1.5'' \<and> VString ''2e3'' \<noteq> VString ''2000''"
  by (simp add: LoadFromJSON_def prepass_def firstRow_def laterRow_def fieldKind_def
      dictatedJSON_def NewSeries_def NewDataFrame_def storeValue_def UpdateRow_def NRows_def
      Append_def strict_def ReorderColumns_def Names_def List.map_filter_simps)

section \<open>The order of the columns\<close>

text \<open>
  C9. When \<^verbatim>\<open>LoadFromJSON\<close> returns a table, the names of its columns are in ascending
  order, each once: they are the sorted list of the set of fields of the first record,
  whatever the order in which the record gave them.
\<close>

theorem LoadFromJSON_columns_sorted:
  assumes "LoadFromJSON dF ctx r options = Ok df"
  shows "sorted (Names df) \<and> distinct (Names df)
       \<and> (\<exists>vals0 rest. Records r = Inr vals0 # rest \<and> Names df = sorted_list_of_set (fst ` set vals0))"
proof -
  from LoadFromJSON_table[OF assms] obtain vals0 rest where
    recs: "Records r = Inr vals0 # rest" and dist: "distinct (map fst vals0)"
    and names: "Names df = sort (map fst vals0)"
    by blast
  have "sorted_list_of_set (fst ` set vals0) = sort (map fst vals0)"
    using sorted_list_of_set_sort_remdups[of "map fst vals0"] dist by (simp add: distinct_remdups_id)
  then show ?thesis using recs names dist by simp
qed

theorem LoadFromJSON_columns_sorted_witness:
  "LoadFromJSON (\<lambda>row name typ val. Inr None) (\<lambda>t. None)
      \<lparr>Tokens = [],
       Records = [Inr [(''b'', JBool True), (''a'', JNumber ''1.50'')],
                  Inr [(''a'', JNumber ''2e3''), (''b'', JBool False), (''c'', JString ''extra'')]]\<rparr>
      None
   = Ok \<lparr>Series = [\<lparr>Name = ''a'', Kind = KString, Values = [VString ''1.50'', VString ''2e3'']\<rparr>,
                   \<lparr>Name = ''b'', Kind = KString, Values = [VString ''1'', VString ''0'']\<rparr>],
         n = 2\<rparr>
   \<and> sorted [''a'', ''b''] \<and> distinct [''a'', ''b'']
   \<and> [''a'', ''b''] = sorted_list_of_set (fst ` set [(''b'', JBool True), (''a'', JNumber ''1.50'')])"
  using LoadFromJSON_columns_sorted[OF LoadFromJSON_example] LoadFromJSON_example
  by (simp add: Names_def)

section \<open>Reverse: the swaps of a range\<close>

declare reverseLoop.simps [simp del]

lemma length_swapped [simp]: "length (swapped s r k xs) = length xs"
  unfolding swapped_def
  by (induction k arbitrary: xs) auto

lemma swapped_Suc: "swapped s r (Suc k) xs =
  swapped s r k (xs[s + k := xs ! (s + (r - 1 - k)), s + (r - 1 - k) := xs ! (s + k)])"
  by (simp add: swapped_def)

lemma Swap_nat:
  "i < length xs \<Longrightarrow> j < length xs \<Longrightarrow>
   Swap (int i) (int j) xs = Some (xs[i := xs ! j, j := xs ! i])"
  by (simp add: Swap_def)

lemma reverseLoop_step:
  assumes "ctx t = None" "2 * Suc k \<le> r" "s + r \<le> length xs"
  shows "reverseLoop ctx t (int r) (int s) (int (Suc k) - 1) xs =
     reverseLoop ctx (Suc t) (int r) (int s) (int k - 1)
       (xs[s + k := xs ! (s + (r - 1 - k)), s + (r - 1 - k) := xs ! (s + k)])"
proof -
  have a: "int r - 1 - int k + int s = int (s + (r - 1 - k))"
    using assms by (simp add: of_nat_diff)
  have b: "int k + int s = int (s + k)" by simp
  have "Swap (int (s + k)) (int (s + (r - 1 - k))) xs =
     Some (xs[s + k := xs ! (s + (r - 1 - k)), s + (r - 1 - k) := xs ! (s + k)])"
    using assms by (intro Swap_nat) auto
  then have sw: "Swap (int k + int s) (int r - 1 - int k + int s) xs =
     Some (xs[s + k := xs ! (s + (r - 1 - k)), s + (r - 1 - k) := xs ! (s + k)])"
    by (simp only: a b)
  show ?thesis
    using assms(1) sw by (subst reverseLoop.simps) (simp add: Let_def)
qed

lemma reverseLoop_swapped:
  assumes "\<forall>j<k. ctx (t + j) = None" "2 * k \<le> r" "s + r \<le> length xs"
  shows "reverseLoop ctx t (int r) (int s) (int k - 1) xs = (Ok (), swapped s r k xs)"
  using assms
proof (induction k arbitrary: xs t)
  case 0
  then show ?case by (simp add: reverseLoop.simps swapped_def)
next
  case (Suc k)
  let ?ys = "xs[s + k := xs ! (s + (r - 1 - k)), s + (r - 1 - k) := xs ! (s + k)]"
  have c0: "ctx t = None" using Suc.prems(1) by (metis add.right_neutral zero_less_Suc)
  have cs: "\<forall>j<k. ctx (Suc t + j) = None"
    using Suc.prems(1) by (metis Suc_less_eq add_Suc_shift)
  have "reverseLoop ctx t (int r) (int s) (int (Suc k) - 1) xs
        = reverseLoop ctx (Suc t) (int r) (int s) (int k - 1) ?ys"
    using c0 Suc.prems by (intro reverseLoop_step) auto
  also have "\<dots> = (Ok (), swapped s r k ?ys)"
    using Suc.prems cs by (intro Suc.IH) auto
  finally show ?case by (simp add: swapped_Suc)
qed

lemma swappedFrom_same [simp]: "swappedFrom s r k k xs = xs"
  by (simp add: swappedFrom_def)

lemma swappedFrom_Suc:
  "lo \<le> k \<Longrightarrow> swappedFrom s r lo (Suc k) xs =
     swappedFrom s r lo k (xs[s + k := xs ! (s + (r - 1 - k)), s + (r - 1 - k) := xs ! (s + k)])"
  by (simp add: swappedFrom_def)

lemma reverseLoop_cancelled:
  assumes "ctx (t + c) = Some err" "\<forall>j<c. ctx (t + j) = None" "c < k" "2 * k \<le> r" "s + r \<le> length xs"
  shows "reverseLoop ctx t (int r) (int s) (int k - 1) xs = (Err (CtxErr err), swappedFrom s r (k - c) k xs)"
  using assms
proof (induction k arbitrary: xs t c)
  case 0
  then show ?case by simp
next
  case (Suc k)
  show ?case
  proof (cases c)
    case 0
    then show ?thesis using Suc.prems(1) by (subst reverseLoop.simps) simp
  next
    case (Suc c')
    let ?ys = "xs[s + k := xs ! (s + (r - 1 - k)), s + (r - 1 - k) := xs ! (s + k)]"
    have c0: "ctx t = None" using Suc.prems(2) Suc by (metis add.right_neutral zero_less_Suc)
    have cs: "\<forall>j<c'. ctx (Suc t + j) = None"
      using Suc.prems(2) Suc by (metis Suc_less_eq add_Suc_shift)
    have ce: "ctx (Suc t + c') = Some err" using Suc.prems(1) Suc by simp
    have "reverseLoop ctx t (int r) (int s) (int (Suc k) - 1) xs
        = reverseLoop ctx (Suc t) (int r) (int s) (int k - 1) ?ys"
      using c0 Suc.prems by (intro reverseLoop_step) auto
    also have "\<dots> = (Err (CtxErr err), swappedFrom s r (k - c') k ?ys)"
      using ce cs Suc Suc.prems by (intro Suc.IH[where c=c']) auto
    also have "swappedFrom s r (k - c') k ?ys = swappedFrom s r (Suc k - c) (Suc k) xs"
      using Suc by (simp add: swappedFrom_Suc)
    finally show ?thesis .
  qed
qed

lemma go_div_2 [simp]: "go_div (int r) 2 = int (r div 2)"
  by (cases "r = 0") (simp_all add: go_div_def zdiv_int)

lemma swapped_nth_outside:
  assumes "2 * k \<le> r" "s + r \<le> length xs" "p < s \<or> s + r \<le> p"
  shows "swapped s r k xs ! p = xs ! p"
  using assms
proof (induction k arbitrary: xs)
  case 0
  then show ?case by (simp add: swapped_def)
next
  case (Suc k)
  let ?a = "s + k" and ?b = "s + (r - 1 - k)"
  let ?ys = "xs[?a := xs ! ?b, ?b := xs ! ?a]"
  have ne: "p \<noteq> ?a" "p \<noteq> ?b" using Suc.prems by auto
  have "swapped s r k ?ys ! p = ?ys ! p"
    using Suc.prems by (intro Suc.IH) auto
  with ne show ?case by (simp add: swapped_Suc)
qed

lemma swapped_nth_inside:
  assumes "2 * k \<le> r" "s + r \<le> length xs" "j < r"
  shows "swapped s r k xs ! (s + j) =
     (if j < k \<or> r - 1 - j < k then xs ! (s + (r - 1 - j)) else xs ! (s + j))"
  using assms
proof (induction k arbitrary: xs)
  case 0
  then show ?case by (simp add: swapped_def)
next
  case (Suc k)
  let ?a = "s + k" and ?b = "s + (r - 1 - k)"
  let ?ys = "xs[?a := xs ! ?b, ?b := xs ! ?a]"
  have ab: "?a < ?b" "?b < length xs" using Suc.prems by auto
  have IH: "swapped s r k ?ys ! (s + j) =
     (if j < k \<or> r - 1 - j < k then ?ys ! (s + (r - 1 - j)) else ?ys ! (s + j))"
    using Suc.prems by (intro Suc.IH) auto
  consider (lo) "j = k" | (hi) "j = r - 1 - k" | (other) "j \<noteq> k" "j \<noteq> r - 1 - k"
    by blast
  then show ?case
  proof cases
    case lo
    have "\<not> (j < k \<or> r - 1 - j < k)" using lo Suc.prems by auto
    moreover have "?ys ! (s + j) = xs ! ?b" using lo ab by simp
    ultimately show ?thesis unfolding swapped_Suc IH using lo by simp
  next
    case hi
    have "\<not> (j < k \<or> r - 1 - j < k)" using hi Suc.prems by auto
    moreover have "?ys ! (s + j) = xs ! ?a" using hi ab by simp
    moreover have "r - 1 - j = k" using hi Suc.prems by auto
    ultimately show ?thesis unfolding swapped_Suc IH by simp
  next
    case other
    have m: "r - 1 - j \<noteq> k" "r - 1 - j \<noteq> r - 1 - k" using other Suc.prems by auto
    have 1: "?ys ! (s + j) = xs ! (s + j)" using other by simp
    have 2: "?ys ! (s + (r - 1 - j)) = xs ! (s + (r - 1 - j))" using m by simp
    have 3: "(j < Suc k \<or> r - 1 - j < Suc k) = (j < k \<or> r - 1 - j < k)"
      using other m by auto
    show ?thesis unfolding swapped_Suc IH 1 2 3 ..
  qed
qed

lemma swapped_rev:
  assumes "s + r \<le> length xs"
  shows "swapped s r (r div 2) xs = take s xs @ rev (take r (drop s xs)) @ drop (s + r) xs"
proof (rule nth_equalityI)
  show "length (swapped s r (r div 2) xs) = length (take s xs @ rev (take r (drop s xs)) @ drop (s + r) xs)"
    using assms by simp
next
  fix p assume "p < length (swapped s r (r div 2) xs)"
  then have p: "p < length xs" by simp
  have k: "2 * (r div 2) \<le> r" by simp
  let ?R = "take s xs @ rev (take r (drop s xs)) @ drop (s + r) xs"
  consider (before) "p < s" | (inside) j where "p = s + j" "j < r" | (after) "s + r \<le> p"
    by (metis le_Suc_ex not_less nat_add_left_cancel_less)
  then show "swapped s r (r div 2) xs ! p = ?R ! p"
  proof cases
    case before
    then show ?thesis using swapped_nth_outside[OF k assms, of p] assms
      by (simp add: nth_append)
  next
    case after
    have l1: "length (take s xs) = s" using assms by simp
    have l2: "length (rev (take r (drop s xs))) = r" using assms by simp
    have "?R ! p = (rev (take r (drop s xs)) @ drop (s + r) xs) ! (p - s)"
      using after by (simp only: nth_append l1) simp
    also have "\<dots> = drop (s + r) xs ! (p - s - r)"
      using after by (simp only: nth_append l2) simp
    also have "\<dots> = xs ! p"
      using after p by simp
    finally show ?thesis using swapped_nth_outside[OF k assms, of p] after
      by simp
  next
    case inside
    have mid: "\<not> (j < r div 2 \<or> r - 1 - j < r div 2) \<Longrightarrow> r - 1 - j = j"
      using inside(2) by auto
    have "?R ! p = rev (take r (drop s xs)) ! j"
      using inside assms by (simp add: nth_append)
    also have "\<dots> = take r (drop s xs) ! (r - 1 - j)"
      using inside assms by (subst rev_nth) auto
    also have "\<dots> = xs ! (s + (r - 1 - j))"
      using inside assms by simp
    finally show ?thesis
      using swapped_nth_inside[OF k assms inside(2)] mid inside(1) by auto
  qed
qed

lemma swappedFrom_swapped:
  assumes "2 * (lo + d) \<le> r"
  shows "swappedFrom s r lo (lo + d) xs = swapped (s + lo) (r - 2 * lo) d xs"
  using assms
proof (induction d arbitrary: xs)
  case 0
  then show ?case by (simp add: swapped_def)
next
  case (Suc d)
  have a: "s + lo + (r - 2 * lo - 1 - d) = s + (r - 1 - (lo + d))"
    using Suc.prems by simp
  have b: "s + lo + d = s + (lo + d)" by simp
  have "swappedFrom s r lo (Suc (lo + d)) xs =
     swappedFrom s r lo (lo + d)
       (xs[s + (lo + d) := xs ! (s + (r - 1 - (lo + d))), s + (r - 1 - (lo + d)) := xs ! (s + (lo + d))])"
    by (intro swappedFrom_Suc) simp
  also have "\<dots> = swapped (s + lo) (r - 2 * lo) d
       (xs[s + (lo + d) := xs ! (s + (r - 1 - (lo + d))), s + (r - 1 - (lo + d)) := xs ! (s + (lo + d))])"
    using Suc.prems by (intro Suc.IH) simp
  also have "\<dots> = swapped (s + lo) (r - 2 * lo) (Suc d) xs"
    unfolding swapped_Suc a b ..
  finally show ?case by simp
qed

lemma swappedFrom_rev:
  assumes "c \<le> r div 2" "s + r \<le> length xs"
  shows "swappedFrom s r (r div 2 - c) (r div 2) xs =
     take (s + (r div 2 - c)) xs
     @ rev (take (r - 2 * (r div 2 - c)) (drop (s + (r div 2 - c)) xs))
     @ drop (s + r - (r div 2 - c)) xs"
proof -
  define lo where "lo = r div 2 - c"
  have k: "r div 2 = lo + c" using assms(1) by (simp add: lo_def)
  have c: "(r - 2 * lo) div 2 = c" using assms(1) by (auto simp: lo_def)
  have le: "2 * (lo + c) \<le> r" using assms(1) by (simp add: lo_def)
  have len: "(s + lo) + (r - 2 * lo) \<le> length xs" using assms le by simp
  have e: "s + lo + (r - 2 * lo) = s + r - lo" using le by simp
  have "swappedFrom s r lo (lo + c) xs = swapped (s + lo) (r - 2 * lo) c xs"
    using le by (rule swappedFrom_swapped)
  also have "\<dots> = swapped (s + lo) (r - 2 * lo) ((r - 2 * lo) div 2) xs"
    by (simp only: c)
  also have "\<dots> = take (s + lo) xs @ rev (take (r - 2 * lo) (drop (s + lo) xs))
       @ drop (s + lo + (r - 2 * lo)) xs"
    using len by (rule swapped_rev)
  finally have "swappedFrom s r lo (r div 2) xs =
     take (s + lo) xs @ rev (take (r - 2 * lo) (drop (s + lo) xs)) @ drop (s + r - lo) xs"
    by (simp only: k e)
  then show ?thesis by (simp only: lo_def)
qed

text \<open>
  C10. For rows \<open>sdf\<close> and the range of the call: with no rows, or with a range of 0 or 1
  rows, \<^verbatim>\<open>Reverse\<close> returns nil and leaves the rows as they are, whatever the context
  says. With a range of \<open>r\<close> rows from position \<open>s\<close> inside the rows, and a context that
  reports nothing at the \<open>r div 2\<close> checks made (one before each swap), it returns nil
  after swapping the positions \<open>s + i\<close> and \<open>s + (r - 1 - i)\<close> for every \<open>i\<close> below
  \<open>r div 2\<close>, which leaves the rows of the range in reverse order and the others in
  place. When the context reports its first error at the check number \<open>c\<close> (counted from 0,
  below \<open>r div 2\<close>), \<^verbatim>\<open>Reverse\<close> stops there: it returns that error instead of nil and
  leaves the rows with the \<open>c\<close> swaps made before that check and no other, those of
  \<open>i = r div 2 - 1\<close> down to \<open>i = r div 2 - c\<close>; these are the pairs nearest the middle, so
  the \<open>r - 2 * (r div 2 - c)\<close> rows in the middle of the range are in reverse order and
  every other row is in place (with \<open>c = 0\<close>, no row has moved).
\<close>

theorem Reverse_swaps_range:
  fixes sdf :: "'a list"
  assumes "rg = reverseRange emptyRange opts"
  shows "(sdf = [] \<longrightarrow> Reverse emptyRange ctx sdf opts = (Ok (), sdf))
    \<and> (sdf \<noteq> [] \<and> Limits rg (int (length sdf)) = Inr (start, e)
          \<and> (fst (RangeNRows rg (int (length sdf))) = 0 \<or> fst (RangeNRows rg (int (length sdf))) = 1)
        \<longrightarrow> Reverse emptyRange ctx sdf opts = (Ok (), sdf))
    \<and> (sdf \<noteq> [] \<and> Limits rg (int (length sdf)) = Inr (int s, e)
          \<and> fst (RangeNRows rg (int (length sdf))) = int r \<and> s + r \<le> length sdf
          \<and> (\<forall>t<r div 2. ctx t = None)
        \<longrightarrow> Reverse emptyRange ctx sdf opts = (Ok (), swapped s r (r div 2) sdf)
          \<and> swapped s r (r div 2) sdf = take s sdf @ rev (take r (drop s sdf)) @ drop (s + r) sdf)
    \<and> (sdf \<noteq> [] \<and> Limits rg (int (length sdf)) = Inr (int s, e)
          \<and> fst (RangeNRows rg (int (length sdf))) = int r \<and> s + r \<le> length sdf
          \<and> c < r div 2 \<and> ctx c = Some err \<and> (\<forall>t<c. ctx t = None)
        \<longrightarrow> Reverse emptyRange ctx sdf opts
              = (Err (CtxErr err), swappedFrom s r (r div 2 - c) (r div 2) sdf)
          \<and> swappedFrom s r (r div 2 - c) (r div 2) sdf
              = take (s + (r div 2 - c)) sdf
                @ rev (take (r - 2 * (r div 2 - c)) (drop (s + (r div 2 - c)) sdf))
                @ drop (s + r - (r div 2 - c)) sdf)"
proof (intro conjI impI)
  assume "sdf = []"
  then show "Reverse emptyRange ctx sdf opts = (Ok (), sdf)"
    by (simp add: Reverse_def)
next
  assume "sdf \<noteq> [] \<and> Limits rg (int (length sdf)) = Inr (start, e)
          \<and> (fst (RangeNRows rg (int (length sdf))) = 0 \<or> fst (RangeNRows rg (int (length sdf))) = 1)"
  then show "Reverse emptyRange ctx sdf opts = (Ok (), sdf)"
    using assms by (auto simp: Reverse_def Let_def)
next
  assume h: "sdf \<noteq> [] \<and> Limits rg (int (length sdf)) = Inr (int s, e)
          \<and> fst (RangeNRows rg (int (length sdf))) = int r \<and> s + r \<le> length sdf
          \<and> (\<forall>t<r div 2. ctx t = None)"
  have loop: "reverseLoop ctx 0 (int r) (int s) (int (r div 2) - 1) sdf = (Ok (), swapped s r (r div 2) sdf)"
    using h by (intro reverseLoop_swapped) auto
  have small: "r = 0 \<or> r = 1 \<Longrightarrow> swapped s r (r div 2) sdf = sdf"
    by (auto simp: swapped_def)
  show "Reverse emptyRange ctx sdf opts = (Ok (), swapped s r (r div 2) sdf)"
    using h assms loop small by (auto simp: Reverse_def Let_def)
  show "swapped s r (r div 2) sdf = take s sdf @ rev (take r (drop s sdf)) @ drop (s + r) sdf"
    using h by (intro swapped_rev) auto
next
  assume h: "sdf \<noteq> [] \<and> Limits rg (int (length sdf)) = Inr (int s, e)
          \<and> fst (RangeNRows rg (int (length sdf))) = int r \<and> s + r \<le> length sdf
          \<and> c < r div 2 \<and> ctx c = Some err \<and> (\<forall>t<c. ctx t = None)"
  have "reverseLoop ctx 0 (int r) (int s) (int (r div 2) - 1) sdf
      = (Err (CtxErr err), swappedFrom s r (r div 2 - c) (r div 2) sdf)"
    using h by (intro reverseLoop_cancelled) auto
  moreover have "r \<noteq> 0" "r \<noteq> 1" using h by auto
  ultimately show "Reverse emptyRange ctx sdf opts
      = (Err (CtxErr err), swappedFrom s r (r div 2 - c) (r div 2) sdf)"
    using h assms by (auto simp: Reverse_def Let_def)
  show "swappedFrom s r (r div 2 - c) (r div 2) sdf
      = take (s + (r div 2 - c)) sdf
        @ rev (take (r - 2 * (r div 2 - c)) (drop (s + (r div 2 - c)) sdf))
        @ drop (s + r - (r div 2 - c)) sdf"
    using h by (intro swappedFrom_rev) auto
qed

theorem Reverse_swaps_range_witness:
  "Reverse \<lparr>Limits = (\<lambda>n. Inr (0, n - 1)), RangeNRows = (\<lambda>n. (n, None))\<rparr> (\<lambda>t. None)
       ([] :: nat list) None = (Ok (), [])
   \<and> Reverse \<lparr>Limits = (\<lambda>n. Inr (0, n - 1)), RangeNRows = (\<lambda>n. (n, None))\<rparr>
       (\<lambda>t. Some ''context canceled'') [7 :: nat] None = (Ok (), [7])
   \<and> Reverse \<lparr>Limits = (\<lambda>n. Inr (0, n - 1)), RangeNRows = (\<lambda>n. (n, None))\<rparr> (\<lambda>t. None)
       [1, 2, 3, 4, 5 :: nat]
       (Some \<lparr>R = Some \<lparr>Limits = (\<lambda>n. Inr (1, 3)), RangeNRows = (\<lambda>n. (3, None))\<rparr>, DontLock = False\<rparr>)
     = (Ok (), [1, 4, 3, 2, 5])
   \<and> Reverse \<lparr>Limits = (\<lambda>n. Inr (0, n - 1)), RangeNRows = (\<lambda>n. (n, None))\<rparr>
       (\<lambda>t. if t = 1 then Some ''context canceled'' else None) [1, 2, 3, 4, 5 :: nat] None
     = (Err (CtxErr ''context canceled''), [1, 4, 3, 2, 5])"
proof -
  let ?W = "\<lparr>Limits = (\<lambda>n. Inr (0, n - 1)), RangeNRows = (\<lambda>n. (n, None))\<rparr> :: Range"
  let ?P = "\<lparr>Limits = (\<lambda>n. Inr (1, 3)), RangeNRows = (\<lambda>n. (3, None))\<rparr> :: Range"
  let ?o = "Some \<lparr>R = Some ?P, DontLock = False\<rparr>"
  have a: "Reverse ?W (\<lambda>t. None) ([] :: nat list) None = (Ok (), [])"
    using Reverse_swaps_range[where rg = ?W and emptyRange = ?W and opts = None
        and sdf = "[] :: nat list" and ctx = "\<lambda>t. None"]
    by (simp add: reverseRange_def)
  have b: "Reverse ?W (\<lambda>t. Some ''context canceled'') [7 :: nat] None = (Ok (), [7])"
    using Reverse_swaps_range[where rg = ?W and emptyRange = ?W and opts = None
        and sdf = "[7 :: nat]" and ctx = "\<lambda>t. Some ''context canceled''" and start = 0 and e = 0]
    by (simp add: reverseRange_def)
  have c: "Reverse ?W (\<lambda>t. None) [1, 2, 3, 4, 5 :: nat] ?o = (Ok (), [1, 4, 3, 2, 5])"
    using Reverse_swaps_range[where rg = ?P and emptyRange = ?W and opts = ?o
        and sdf = "[1, 2, 3, 4, 5 :: nat]" and ctx = "\<lambda>t. None" and s = 1 and r = 3 and e = 3]
    by (simp add: reverseRange_def)
  have d: "Reverse ?W (\<lambda>t. if t = 1 then Some ''context canceled'' else None)
             [1, 2, 3, 4, 5 :: nat] None = (Err (CtxErr ''context canceled''), [1, 4, 3, 2, 5])"
    using Reverse_swaps_range[where rg = ?W and emptyRange = ?W and opts = None
        and sdf = "[1, 2, 3, 4, 5 :: nat]"
        and ctx = "\<lambda>t. if t = 1 then Some ''context canceled'' else None"
        and s = 0 and r = 5 and e = 4 and c = 1 and err = "''context canceled''"]
    by (simp add: reverseRange_def)
  show ?thesis using a b c d by blast
qed


text \<open>
  The claim as stated fails for a cancelled context: three rows and the whole range, and
  \<^verbatim>\<open>Reverse\<close> returns the context's error with no swap made.
\<close>

theorem Reverse_cancelled_counterexample:
  "Reverse \<lparr>Limits = (\<lambda>n. Inr (0, n - 1)), RangeNRows = (\<lambda>n. (n, None))\<rparr>
     (\<lambda>t. Some ''context canceled'') [1, 2, 3 :: nat] None
   = (Err (CtxErr ''context canceled''), [1, 2, 3])"
  by (simp add: Reverse_def reverseRange_def go_div_def reverseLoop.simps)

end
